theory Spec2Isabelle
  imports Main
begin

section \<open>Python values used by the migration\<close>

subsection \<open>Strings\<close>

text \<open>
  A Python \<open>str\<close> is modelled as a \<open>string\<close>. The model covers ASCII text: the
  methods \<open>upper\<close>, \<open>lower\<close>, \<open>title\<close> and \<open>strip\<close> act on the ASCII letters and
  the ASCII white space as Python does, and leave every other character alone.
  A nullable column is an \<open>option\<close>; \<open>truthy\<close> is Python's truth test of such a
  value (\<open>None\<close> and the empty string are false).
\<close>

definition ascii_lowercase :: string where
  "ascii_lowercase = ''abcdefghijklmnopqrstuvwxyz''"

definition ascii_uppercase :: string where
  "ascii_uppercase = ''ABCDEFGHIJKLMNOPQRSTUVWXYZ''"

definition upper_char :: "char \<Rightarrow> char" where
  "upper_char c =
     (case map_of (zip ascii_lowercase ascii_uppercase) c of Some u \<Rightarrow> u | None \<Rightarrow> c)"

definition lower_char :: "char \<Rightarrow> char" where
  "lower_char c =
     (case map_of (zip ascii_uppercase ascii_lowercase) c of Some l \<Rightarrow> l | None \<Rightarrow> c)"

definition is_cased :: "char \<Rightarrow> bool" where
  "is_cased c = (c \<in> set ascii_lowercase \<or> c \<in> set ascii_uppercase)"

definition is_space :: "char \<Rightarrow> bool" where
  "is_space c = (of_char c \<in> {9, 10, 11, 12, 13, 28, 29, 30, 31, 32 :: nat})"

definition upper :: "string \<Rightarrow> string" where
  "upper s = map upper_char s"

definition lower :: "string \<Rightarrow> string" where
  "lower s = map lower_char s"

definition strip :: "string \<Rightarrow> string" where
  "strip s = rev (dropWhile is_space (rev (dropWhile is_space s)))"

fun title_from :: "bool \<Rightarrow> string \<Rightarrow> string" where
  "title_from previous_is_cased [] = []"
| "title_from previous_is_cased (c # cs) =
     (if previous_is_cased then lower_char c else upper_char c) # title_from (is_cased c) cs"

definition title :: "string \<Rightarrow> string" where
  "title s = title_from False s"

definition truthy :: "string option \<Rightarrow> bool" where
  "truthy v = (case v of None \<Rightarrow> False | Some s \<Rightarrow> s \<noteq> [])"

definition or_empty :: "string option \<Rightarrow> string" where
  "or_empty v = (case v of None \<Rightarrow> [] | Some s \<Rightarrow> s)"

definition blank :: "string option \<Rightarrow> bool" where
  "blank v = (case v of None \<Rightarrow> True | Some s \<Rightarrow> strip s = [])"

subsection \<open>Errors\<close>

text \<open>
  \<open>UnknownAspectError\<close> is the exception of \<open>transform.py\<close>, carrying the kind it
  could not map. \<open>DBError n\<close> is an exception raised by a database driver on the
  statement with index \<open>n\<close> of the run; \<open>SequenceOutOfBounds\<close> is PostgreSQL's
  refusal of a \<open>setval\<close> outside the bounds of the sequence.
\<close>

datatype error =
    UnknownAspectError "string option"
  | DBError nat
  | SequenceOutOfBounds int

section \<open>transform.py\<close>

definition KIND_TO_ASPECT :: "string \<rightharpoonup> string" where
  "KIND_TO_ASPECT = map_of
     [(''BACKGROUND'', ''card-background''),
      (''FRAME'', ''card-background''),
      (''CHARACTER'', ''card-background''),
      (''MASK'', ''card-background''),
      (''LABEL'', ''card-background''),
      (''PASSNAME'', ''sega-passname'')]"

definition derive_aspect_id :: "string option \<Rightarrow> error + string" where
  "derive_aspect_id kind =
     (let key = upper (or_empty kind)
      in case KIND_TO_ASPECT key of
           None \<Rightarrow> Inl (UnknownAspectError kind)
         | Some aspect \<Rightarrow> Inr aspect)"

definition build_image_labels :: "string option \<Rightarrow> string option \<Rightarrow> string list" where
  "build_image_labels kind category =
     (let labels = (if truthy kind then [lower (or_empty kind)] else []);
          labels = (if truthy category
                    then (let normalized = strip (or_empty category)
                          in if normalized \<noteq> [] then labels @ [lower normalized] else labels)
                    else labels)
      in if labels \<noteq> [] then labels else [''unclassified''])"

definition build_image_name :: "string option \<Rightarrow> string \<Rightarrow> string option \<Rightarrow> string" where
  "build_image_name label uuid kind =
     (if truthy label \<and> strip (or_empty label) \<noteq> [] then strip (or_empty label)
      else (let fallback_kind = (if truthy kind then title (or_empty kind) else ''Image'')
            in fallback_kind @ ''-'' @ uuid))"

fun first_candidate :: "string option list \<Rightarrow> string" where
  "first_candidate [] = ''Legacy image imported via migration-tools''"
| "first_candidate (candidate # rest) =
     (if truthy candidate \<and> strip (or_empty candidate) \<noteq> [] then strip (or_empty candidate)
      else first_candidate rest)"

definition build_image_description ::
    "string option \<Rightarrow> string option \<Rightarrow> string option \<Rightarrow> string" where
  "build_image_description label category kind =
     first_candidate [label, category, if truthy kind then Some (title (or_empty kind)) else None]"

definition normalize_privileges :: "string list" where
  "normalize_privileges = [''NORMAL'']"

record MergeSectionResult =
  processed :: int
  inserted :: int
  updated :: int
  skipped :: int

definition no_counts :: MergeSectionResult where
  "no_counts = \<lparr>processed = 0, inserted = 0, updated = 0, skipped = 0\<rparr>"

section \<open>The databases and the world of a run\<close>

subsection \<open>Dates and times\<close>

text \<open>
  A \<open>datetime\<close> is its wall-clock reading, in microseconds from a fixed origin, and
  its \<open>tzinfo\<close>: \<open>None\<close> for a naive value, the offset from UTC (in microseconds)
  for an aware one. The year range of Python's \<open>datetime\<close> is not modelled.
\<close>

record datetime =
  wall :: int
  tzinfo :: "int option"

definition astimezone_utc :: "datetime \<Rightarrow> int \<Rightarrow> datetime" where
  "astimezone_utc d utcoffset = \<lparr>wall = wall d - utcoffset, tzinfo = Some 0\<rparr>"

definition replace_tzinfo_None :: "datetime \<Rightarrow> datetime" where
  "replace_tzinfo_None d = d\<lparr>tzinfo := None\<rparr>"

subsection \<open>Rows\<close>

text \<open>The legacy tables \<open>users\<close> and \<open>images\<close>, as the two SELECT statements read them.\<close>

record legacy_user =
  users_id :: int
  users_username :: string
  users_hashed_password :: string
  users_created_at :: "datetime option"

record legacy_image =
  images_uuid :: string
  images_kind :: "string option"
  images_label :: "string option"
  images_file_name :: string
  images_uploaded_by :: "int option"
  images_uploaded_at :: "datetime option"
  images_category :: "string option"
  images_trace_id :: "string option"

text \<open>
  The source database, read only: each table is the list of its rows in the order in
  which its query returns them (\<open>ORDER BY id\<close>, and \<open>ORDER BY uploaded_at, uuid\<close>).
\<close>

record source_db =
  users_table :: "legacy_user list"
  images_table :: "legacy_image list"

text \<open>The dictionaries built by \<open>_adapt_user_row\<close> and \<open>_adapt_image_row\<close>: rows of
  \<open>tbl_user\<close> and \<open>tbl_image\<close>.\<close>

record user_entry =
  u_id :: int
  u_username :: string
  u_password :: string
  u_phone :: "string option"
  u_privileges :: "string list"
  u_created_at :: datetime
  u_updated_at :: datetime

record image_entry =
  i_uuid :: string
  i_user_id :: "int option"
  i_aspect_id :: string
  i_name :: string
  i_description :: string
  i_visibility :: int
  i_labels :: "string list"
  i_file_name :: string
  i_metadata_id :: "string option"
  i_created_at :: datetime
  i_updated_at :: datetime

record aspect_row =
  a_id :: string
  a_name :: string
  a_description :: string
  a_ratio_width_unit :: int
  a_ratio_height_unit :: int

subsection \<open>The target database\<close>

text \<open>
  A PostgreSQL sequence: \<open>setval\<close> with \<open>is_called = true\<close> stores the value, and is
  refused outside the bounds of the sequence; \<open>nextval\<close> returns the stored value when
  it has not been handed out yet, and the value advanced by the increment otherwise.
  A sequence is not transactional: what \<open>setval\<close> and \<open>nextval\<close> store is not undone
  when the transaction rolls back.
\<close>

record pg_sequence =
  last_value :: int
  is_called :: bool
  min_value :: int
  max_value :: int
  increment_by :: int

definition setval :: "int \<Rightarrow> pg_sequence \<Rightarrow> error + pg_sequence" where
  "setval v s =
     (if v < min_value s \<or> max_value s < v then Inl (SequenceOutOfBounds v)
      else Inr (s\<lparr>last_value := v, is_called := True\<rparr>))"

definition nextval :: "pg_sequence \<Rightarrow> error + (int \<times> pg_sequence)" where
  "nextval s =
     (if \<not> is_called s then Inr (last_value s, s\<lparr>is_called := True\<rparr>)
      else (let n = last_value s + increment_by s
            in if n < min_value s \<or> max_value s < n then Inl (SequenceOutOfBounds n)
               else Inr (n, s\<lparr>last_value := n\<rparr>)))"

record target_db =
  tbl_user :: "int \<rightharpoonup> user_entry"
  tbl_image :: "string \<rightharpoonup> image_entry"
  tbl_image_aspect :: "string \<rightharpoonup> aspect_row"
  tbl_user_id_seq :: pg_sequence

text \<open>
  \<open>INSERT ... ON CONFLICT (key) DO UPDATE SET ...\<close>: a row with a new key is inserted
  as it is; on a conflict the existing row is kept and the columns of the SET list
  are assigned from the incoming row (\<open>EXCLUDED\<close>).
\<close>

definition upsert :: "('e \<Rightarrow> 'k) \<Rightarrow> ('e \<Rightarrow> 'e \<Rightarrow> 'e) \<Rightarrow> 'e \<Rightarrow> ('k \<rightharpoonup> 'e) \<Rightarrow> ('k \<rightharpoonup> 'e)" where
  "upsert key do_update excluded tbl =
     (case tbl (key excluded) of
        None \<Rightarrow> tbl(key excluded \<mapsto> excluded)
      | Some existing \<Rightarrow> tbl(key excluded \<mapsto> do_update existing excluded))"

definition tbl_user_do_update :: "user_entry \<Rightarrow> user_entry \<Rightarrow> user_entry" where
  "tbl_user_do_update existing excluded =
     existing\<lparr>u_username := u_username excluded,
              u_password := u_password excluded,
              u_phone := u_phone excluded,
              u_privileges := u_privileges excluded,
              u_updated_at := u_updated_at excluded\<rparr>"

definition tbl_image_do_update :: "image_entry \<Rightarrow> image_entry \<Rightarrow> image_entry" where
  "tbl_image_do_update existing excluded =
     existing\<lparr>i_user_id := i_user_id excluded,
              i_aspect_id := i_aspect_id excluded,
              i_name := i_name excluded,
              i_description := i_description excluded,
              i_visibility := i_visibility excluded,
              i_labels := i_labels excluded,
              i_file_name := i_file_name excluded,
              i_metadata_id := i_metadata_id excluded,
              i_updated_at := i_updated_at excluded\<rparr>"

definition max_id :: "(int \<rightharpoonup> 'v) \<Rightarrow> int option" where
  "max_id tbl = (if dom tbl = {} then None else Some (Max (dom tbl)))"

definition coalesce :: "int option \<Rightarrow> int \<Rightarrow> int" where
  "coalesce v d = (case v of None \<Rightarrow> d | Some x \<Rightarrow> x)"

text \<open>The statements that \<open>merge.py\<close> sends, and what each does to the target.\<close>

datatype statement =
    SelectIds string string
  | SelectUsers
  | SelectImages
  | SelectAspects
  | UpsertUser user_entry
  | UpsertImage image_entry
  | InsertAspect aspect_row
  | SetvalMax string string string

fun effect :: "statement \<Rightarrow> target_db \<Rightarrow> error + target_db" where
  "effect (UpsertUser entry) d =
     Inr (d\<lparr>tbl_user := upsert u_id tbl_user_do_update entry (tbl_user d)\<rparr>)"
| "effect (UpsertImage entry) d =
     Inr (d\<lparr>tbl_image := upsert i_uuid tbl_image_do_update entry (tbl_image d)\<rparr>)"
| "effect (InsertAspect row) d =
     Inr (d\<lparr>tbl_image_aspect := upsert a_id (\<lambda>existing excluded. existing) row
                                     (tbl_image_aspect d)\<rparr>)"
| "effect (SetvalMax sequence table column) d =
     (case setval (coalesce (max_id (tbl_user d)) 0) (tbl_user_id_seq d) of
        Inl e \<Rightarrow> Inl e
      | Inr s \<Rightarrow> Inr (d\<lparr>tbl_user_id_seq := s\<rparr>))"
| "effect (SelectIds table column) d = Inr d"
| "effect SelectUsers d = Inr d"
| "effect SelectImages d = Inr d"
| "effect SelectAspects d = Inr d"

subsection \<open>The world\<close>

text \<open>
  What a run cannot decide is given by its environment: \<open>clock env n\<close> is the reading
  of the \<open>n\<close>-th call of \<open>datetime.utcnow()\<close>, and \<open>fault env n\<close> tells whether the
  driver raises on the \<open>n\<close>-th statement. The world of a run is the target database as
  the open transaction sees it, the numbers of statements sent and of clock readings
  taken, and the trace of what the run did: statements executed, warnings logged,
  transactions ended.
\<close>

record env =
  clock :: "nat \<Rightarrow> int"
  fault :: "nat \<Rightarrow> bool"

datatype connection = Source | Target

datatype skip_reason = NoUploader | UploaderMissing int | Unclassifiable error

datatype event =
    Executed connection statement
  | Warning string skip_reason
  | Rollback connection
  | Commit connection

record world =
  db :: target_db
  stmts :: nat
  ticks :: nat
  trace :: "event list"

type_synonym 'a io = "world \<Rightarrow> (error + 'a) \<times> world"

definition io_return :: "'a \<Rightarrow> 'a io" where
  "io_return x w = (Inr x, w)"

definition io_bind :: "'a io \<Rightarrow> ('a \<Rightarrow> 'b io) \<Rightarrow> 'b io" where
  "io_bind m f w = (case m w of (Inl e, w') \<Rightarrow> (Inl e, w') | (Inr x, w') \<Rightarrow> f x w')"

definition utcnow :: "env \<Rightarrow> world \<Rightarrow> datetime \<times> world" where
  "utcnow env w = (\<lparr>wall = clock env (ticks w), tzinfo = None\<rparr>, w\<lparr>ticks := Suc (ticks w)\<rparr>)"

definition log_warning :: "string \<Rightarrow> skip_reason \<Rightarrow> world \<Rightarrow> world" where
  "log_warning uuid reason w = w\<lparr>trace := trace w @ [Warning uuid reason]\<rparr>"

definition execute :: "env \<Rightarrow> connection \<Rightarrow> statement \<Rightarrow> unit io" where
  "execute env conn s w =
     (if fault env (stmts w) then (Inl (DBError (stmts w)), w\<lparr>stmts := Suc (stmts w)\<rparr>)
      else (case effect s (db w) of
              Inl e \<Rightarrow> (Inl e, w\<lparr>stmts := Suc (stmts w)\<rparr>)
            | Inr d \<Rightarrow> (Inr (), w\<lparr>db := d, stmts := Suc (stmts w),
                                  trace := trace w @ [Executed conn s]\<rparr>)))"

fun executemany :: "env \<Rightarrow> connection \<Rightarrow> statement list \<Rightarrow> unit io" where
  "executemany env conn [] w = (Inr (), w)"
| "executemany env conn (s # ss) w =
     (case execute env conn s w of
        (Inl e, w') \<Rightarrow> (Inl e, w')
      | (Inr _, w') \<Rightarrow> executemany env conn ss w')"

section \<open>merge.py\<close>

subsection \<open>Helpers\<close>

definition collect_existing_user_ids :: "env \<Rightarrow> int set io" where
  "collect_existing_user_ids env =
     io_bind (execute env Target (SelectIds ''tbl_user'' ''id''))
       (\<lambda>_ w. (Inr (dom (tbl_user (db w))), w))"

definition collect_existing_image_uuids :: "env \<Rightarrow> string set io" where
  "collect_existing_image_uuids env =
     io_bind (execute env Target (SelectIds ''tbl_image'' ''uuid''))
       (\<lambda>_ w. (Inr (dom (tbl_image (db w))), w))"

definition sync_sequence :: "env \<Rightarrow> string \<Rightarrow> string \<Rightarrow> string \<Rightarrow> unit io" where
  "sync_sequence env sequence table column =
     execute env Target (SetvalMax sequence table column)"

definition ensure_datetime :: "env \<Rightarrow> datetime option \<Rightarrow> world \<Rightarrow> datetime \<times> world" where
  "ensure_datetime env v w =
     (case v of
        None \<Rightarrow> utcnow env w
      | Some d \<Rightarrow>
          (case tzinfo d of
             Some utcoffset \<Rightarrow> (replace_tzinfo_None (astimezone_utc d utcoffset), w)
           | None \<Rightarrow> (d, w)))"

subsection \<open>Users\<close>

definition adapt_user_row :: "env \<Rightarrow> legacy_user \<Rightarrow> world \<Rightarrow> user_entry \<times> world" where
  "adapt_user_row env row w =
     (let (created_at, w) = ensure_datetime env (users_created_at row) w;
          (now, w) = utcnow env w
      in (\<lparr>u_id = users_id row,
           u_username = users_username row,
           u_password = users_hashed_password row,
           u_phone = None,
           u_privileges = normalize_privileges,
           u_created_at = created_at,
           u_updated_at = now\<rparr>, w))"

definition upsert_users :: "env \<Rightarrow> user_entry list \<Rightarrow> unit io" where
  "upsert_users env payload w =
     (if payload = [] then (Inr (), w)
      else executemany env Target (map UpsertUser payload) w)"

fun users_loop ::
    "env \<Rightarrow> int \<Rightarrow> legacy_user list \<Rightarrow> MergeSectionResult \<times> int set \<times> user_entry list
       \<Rightarrow> (MergeSectionResult \<times> int set \<times> user_entry list) io" where
  "users_loop env batch_size [] st w = (Inr st, w)"
| "users_loop env batch_size (row # rows) (summary, existing_ids, payload) w =
     (let summary = summary\<lparr>processed := processed summary + 1\<rparr>;
          (entry, w) = adapt_user_row env row w;
          (summary, existing_ids) =
            (if users_id row \<in> existing_ids
             then (summary\<lparr>updated := updated summary + 1\<rparr>, existing_ids)
             else (summary\<lparr>inserted := inserted summary + 1\<rparr>,
                   insert (users_id row) existing_ids));
          payload = payload @ [entry]
      in if int (length payload) \<ge> batch_size
         then (case upsert_users env payload w of
                 (Inl e, w') \<Rightarrow> (Inl e, w')
               | (Inr _, w') \<Rightarrow> users_loop env batch_size rows (summary, existing_ids, []) w')
         else users_loop env batch_size rows (summary, existing_ids, payload) w)"

definition merge_users :: "env \<Rightarrow> int \<Rightarrow> source_db \<Rightarrow> MergeSectionResult io" where
  "merge_users env batch_size src =
     io_bind (collect_existing_user_ids env) (\<lambda>existing_ids.
     io_bind (execute env Source SelectUsers) (\<lambda>_.
     io_bind (users_loop env batch_size (users_table src) (no_counts, existing_ids, []))
       (\<lambda>(summary, existing_ids, payload).
     io_bind (if payload \<noteq> [] then upsert_users env payload else io_return ()) (\<lambda>_.
     io_bind (sync_sequence env ''tbl_user_id_seq'' ''tbl_user'' ''id'') (\<lambda>_.
     io_return summary)))))"

subsection \<open>Images\<close>

definition card_background :: aspect_row where
  "card_background =
     \<lparr>a_id = ''card-background'',
      a_name = ''Card Background'',
      a_description = map char_of
        [231, 171, 150, 231, 137, 136, 229, 141, 161, 231, 137, 135, 239, 188, 140, 231,
         172, 166, 229, 144, 136, 73, 68, 45, 49, 229, 141, 161, 231, 137, 135, 230, 175,
         148, 228, 190, 139, 231, 154, 132, 229, 155, 190, 231, 137, 135 :: nat],
      a_ratio_width_unit = 768,
      a_ratio_height_unit = 1220\<rparr>"

definition sega_passname :: aspect_row where
  "sega_passname =
     \<lparr>a_id = ''sega-passname'',
      a_name = ''SEGA Passname'',
      a_description = map char_of
        [230, 168, 170, 231, 137, 136, 233, 128, 154, 232, 161, 140, 232, 175, 129, 239,
         188, 140, 231, 172, 166, 229, 144, 136, 80, 65, 83, 83, 78, 65, 77, 69, 230, 175,
         148, 228, 190, 139, 231, 154, 132, 229, 155, 190, 231, 137, 135 :: nat],
      a_ratio_width_unit = 338,
      a_ratio_height_unit = 112\<rparr>"

definition required :: "(string \<times> aspect_row) list" where
  "required = [(''card-background'', card_background), (''sega-passname'', sega_passname)]"

definition ensure_required_aspects :: "env \<Rightarrow> unit io" where
  "ensure_required_aspects env =
     io_bind (execute env Target SelectAspects) (\<lambda>_ w.
       (let existing = dom (tbl_image_aspect (db w)) \<inter> {''card-background'', ''sega-passname''};
            missing = map snd (filter (\<lambda>(key, data). key \<notin> existing) required)
        in if missing = [] then (Inr (), w)
           else executemany env Target (map InsertAspect missing) w))"

definition adapt_image_row ::
    "env \<Rightarrow> legacy_image \<Rightarrow> string \<Rightarrow> world \<Rightarrow> image_entry \<times> world" where
  "adapt_image_row env row aspect_id w =
     (let (uploaded_at, w) = ensure_datetime env (images_uploaded_at row) w;
          labels = build_image_labels (images_kind row) (images_category row);
          name = build_image_name (images_label row) (images_uuid row) (images_kind row);
          description =
            build_image_description (images_label row) (images_category row) (images_kind row);
          (now, w) = utcnow env w
      in (\<lparr>i_uuid = images_uuid row,
           i_user_id = images_uploaded_by row,
           i_aspect_id = aspect_id,
           i_name = name,
           i_description = description,
           i_visibility = 1,
           i_labels = labels,
           i_file_name = images_file_name row,
           i_metadata_id = images_trace_id row,
           i_created_at = uploaded_at,
           i_updated_at = now\<rparr>, w))"

definition upsert_images :: "env \<Rightarrow> image_entry list \<Rightarrow> unit io" where
  "upsert_images env payload w =
     (if payload = [] then (Inr (), w)
      else executemany env Target (map UpsertImage payload) w)"

definition skip_row :: "MergeSectionResult \<Rightarrow> MergeSectionResult" where
  "skip_row summary = summary\<lparr>skipped := skipped summary + 1\<rparr>"

fun images_loop ::
    "env \<Rightarrow> int \<Rightarrow> int set \<Rightarrow> legacy_image list
       \<Rightarrow> MergeSectionResult \<times> string set \<times> image_entry list
       \<Rightarrow> (MergeSectionResult \<times> string set \<times> image_entry list) io" where
  "images_loop env batch_size known_user_ids [] st w = (Inr st, w)"
| "images_loop env batch_size known_user_ids (row # rows) (summary, existing_uuids, payload) w =
     (let summary = summary\<lparr>processed := processed summary + 1\<rparr>
      in case images_uploaded_by row of
           None \<Rightarrow>
             images_loop env batch_size known_user_ids rows
               (skip_row summary, existing_uuids, payload)
               (log_warning (images_uuid row) NoUploader w)
         | Some uploaded_by \<Rightarrow>
             if uploaded_by \<notin> known_user_ids
             then images_loop env batch_size known_user_ids rows
                    (skip_row summary, existing_uuids, payload)
                    (log_warning (images_uuid row) (UploaderMissing uploaded_by) w)
             else (case derive_aspect_id (images_kind row) of
                     Inl (UnknownAspectError k) \<Rightarrow>
                       images_loop env batch_size known_user_ids rows
                         (skip_row summary, existing_uuids, payload)
                         (log_warning (images_uuid row)
                            (Unclassifiable (UnknownAspectError k)) w)
                   | Inl exc \<Rightarrow> (Inl exc, w)
                   | Inr aspect_id \<Rightarrow>
                       (let (entry, w) = adapt_image_row env row aspect_id w;
                            (summary, existing_uuids) =
                              (if images_uuid row \<in> existing_uuids
                               then (summary\<lparr>updated := updated summary + 1\<rparr>, existing_uuids)
                               else (summary\<lparr>inserted := inserted summary + 1\<rparr>,
                                     insert (images_uuid row) existing_uuids));
                            payload = payload @ [entry]
                        in if int (length payload) \<ge> batch_size
                           then (case upsert_images env payload w of
                                   (Inl e, w') \<Rightarrow> (Inl e, w')
                                 | (Inr _, w') \<Rightarrow>
                                     images_loop env batch_size known_user_ids rows
                                       (summary, existing_uuids, []) w')
                           else images_loop env batch_size known_user_ids rows
                                  (summary, existing_uuids, payload) w)))"

definition merge_images :: "env \<Rightarrow> int \<Rightarrow> source_db \<Rightarrow> MergeSectionResult io" where
  "merge_images env batch_size src =
     io_bind (ensure_required_aspects env) (\<lambda>_.
     io_bind (collect_existing_image_uuids env) (\<lambda>existing_uuids.
     io_bind (collect_existing_user_ids env) (\<lambda>known_user_ids.
     io_bind (execute env Source SelectImages) (\<lambda>_.
     io_bind (images_loop env batch_size known_user_ids (images_table src)
                (no_counts, existing_uuids, []))
       (\<lambda>(summary, existing_uuids, payload).
     io_bind (if payload \<noteq> [] then upsert_images env payload else io_return ()) (\<lambda>_.
     io_return summary))))))"

subsection \<open>The coordinator\<close>

text \<open>
  \<open>run_merge\<close> from the point where both transactions are open. It takes the committed
  state of the target and returns what the caller gets (the error raised, or the
  counters), the state of the target once the run is over, and the trace of the run.
  A rollback of the target discards what the transaction wrote to the tables; the
  sequence keeps what \<open>setval\<close> stored.
\<close>

record MergeConfig =
  source_url :: string
  target_url :: string
  batch_size :: int
  dry_run :: bool

record MergeResult =
  users :: MergeSectionResult
  images :: MergeSectionResult

definition begin_transactions :: "target_db \<Rightarrow> world" where
  "begin_transactions committed = \<lparr>db = committed, stmts = 0, ticks = 0, trace = []\<rparr>"

definition rolled_back :: "target_db \<Rightarrow> world \<Rightarrow> target_db" where
  "rolled_back committed w = committed\<lparr>tbl_user_id_seq := tbl_user_id_seq (db w)\<rparr>"

definition rollback_both :: "world \<Rightarrow> event list" where
  "rollback_both w = trace w @ [Rollback Target, Rollback Source]"

definition commit_both :: "world \<Rightarrow> event list" where
  "commit_both w = trace w @ [Commit Target, Commit Source]"

definition run_merge ::
    "env \<Rightarrow> MergeConfig \<Rightarrow> source_db \<Rightarrow> target_db
       \<Rightarrow> (error + MergeResult) \<times> target_db \<times> event list" where
  "run_merge env config src committed =
     (case merge_users env (batch_size config) src (begin_transactions committed) of
        (Inl e, w) \<Rightarrow> (Inl e, rolled_back committed w, rollback_both w)
      | (Inr users_summary, w) \<Rightarrow>
          (case merge_images env (batch_size config) src w of
             (Inl e, w) \<Rightarrow> (Inl e, rolled_back committed w, rollback_both w)
           | (Inr images_summary, w) \<Rightarrow>
               (let result = \<lparr>users = users_summary, images = images_summary\<rparr>
                in if dry_run config
                   then (Inr result, rolled_back committed w, rollback_both w)
                   else (Inr result, db w, commit_both w))))"

section \<open>Concrete data\<close>

text \<open>
  A small source and target on which the functions above are run: two legacy users,
  the first with no creation time and the second with a time at UTC+1 (an offset of
  3600000000 microseconds); four legacy
  images, of which one is migrated, one has no uploader, one has an uploader that is
  not a user of the target, and one has a kind that no aspect stands for.
\<close>

definition naive :: "int \<Rightarrow> datetime" where
  "naive t = \<lparr>wall = t, tzinfo = None\<rparr>"

definition example_env :: env where
  "example_env = \<lparr>clock = (\<lambda>n. 1000 + int n), fault = (\<lambda>n. False)\<rparr>"

definition later_env :: env where
  "later_env = \<lparr>clock = (\<lambda>n. 2000 + int n), fault = (\<lambda>n. False)\<rparr>"

definition example_seq :: pg_sequence where
  "example_seq = \<lparr>last_value = 1, is_called = False, min_value = 1,
                   max_value = 2147483647, increment_by = 1\<rparr>"

definition empty_target :: target_db where
  "empty_target = \<lparr>tbl_user = Map.empty, tbl_image = Map.empty,
                    tbl_image_aspect = Map.empty, tbl_user_id_seq = example_seq\<rparr>"

definition stored_user :: user_entry where
  "stored_user = \<lparr>u_id = 1, u_username = ''old-name'', u_password = ''old-hash'',
                   u_phone = Some ''555'', u_privileges = [''ADMIN''],
                   u_created_at = naive 10, u_updated_at = naive 20\<rparr>"

definition incoming_user :: user_entry where
  "incoming_user = \<lparr>u_id = 1, u_username = ''alice'', u_password = ''hash'',
                     u_phone = None, u_privileges = [''NORMAL''],
                     u_created_at = naive 30, u_updated_at = naive 40\<rparr>"

definition stored_image :: image_entry where
  "stored_image = \<lparr>i_uuid = ''u-1'', i_user_id = Some 7, i_aspect_id = ''sega-passname'',
                    i_name = ''old'', i_description = ''old'', i_visibility = 0,
                    i_labels = [''old''], i_file_name = ''old.png'', i_metadata_id = None,
                    i_created_at = naive 10, i_updated_at = naive 20\<rparr>"

definition incoming_image :: image_entry where
  "incoming_image = \<lparr>i_uuid = ''u-1'', i_user_id = Some 1, i_aspect_id = ''card-background'',
                      i_name = ''new'', i_description = ''new'', i_visibility = 1,
                      i_labels = [''frame''], i_file_name = ''new.png'',
                      i_metadata_id = Some ''trace'',
                      i_created_at = naive 30, i_updated_at = naive 40\<rparr>"

definition stored_target :: target_db where
  "stored_target = \<lparr>tbl_user = [1 \<mapsto> stored_user], tbl_image = [''u-1'' \<mapsto> stored_image],
                     tbl_image_aspect = Map.empty, tbl_user_id_seq = example_seq\<rparr>"

definition alice :: legacy_user where
  "alice = \<lparr>users_id = 1, users_username = ''alice'', users_hashed_password = ''hash-a'',
             users_created_at = None\<rparr>"

definition bob :: legacy_user where
  "bob = \<lparr>users_id = 2, users_username = ''bob'', users_hashed_password = ''hash-b'',
           users_created_at = Some \<lparr>wall = 3600000500, tzinfo = Some 3600000000\<rparr>\<rparr>"

definition image_of_alice :: legacy_image where
  "image_of_alice = \<lparr>images_uuid = ''u-1'', images_kind = Some ''frame'',
                      images_label = None, images_file_name = ''a.png'',
                      images_uploaded_by = Some 1, images_uploaded_at = Some (naive 700),
                      images_category = Some ''Event'', images_trace_id = None\<rparr>"

definition image_of_nobody :: legacy_image where
  "image_of_nobody = image_of_alice\<lparr>images_uuid := ''u-2'', images_uploaded_by := None\<rparr>"

definition image_of_stranger :: legacy_image where
  "image_of_stranger = image_of_alice\<lparr>images_uuid := ''u-3'', images_uploaded_by := Some 99\<rparr>"

definition image_of_unknown_kind :: legacy_image where
  "image_of_unknown_kind = image_of_alice\<lparr>images_uuid := ''u-4'', images_kind := Some ''unknown''\<rparr>"

definition example_source :: source_db where
  "example_source =
     \<lparr>users_table = [alice, bob],
      images_table = [image_of_nobody, image_of_stranger, image_of_unknown_kind, image_of_alice]\<rparr>"

definition example_config :: MergeConfig where
  "example_config = \<lparr>source_url = ''mysql+pymysql://legacy'',
                      target_url = ''postgresql+psycopg://target'',
                      batch_size = 500, dry_run = False\<rparr>"

text \<open>A source with two images to migrate, and an environment in which the driver
  raises on the statement with index 12: the upsert of the second image of the batch.\<close>

definition second_image :: legacy_image where
  "second_image = image_of_alice\<lparr>images_uuid := ''u-5''\<rparr>"

definition two_images_source :: source_db where
  "two_images_source = example_source\<lparr>images_table := [image_of_alice, second_image]\<rparr>"

definition failing_env :: env where
  "failing_env = \<lparr>clock = (\<lambda>n. 1000 + int n), fault = (\<lambda>n. n = 12)\<rparr>"

text \<open>The target after the example source has been merged into the empty target,
  after it has been merged once more, later, after a run that a failing statement
  aborts, and after a dry run.\<close>

definition after_first_run :: target_db where
  "after_first_run = fst (snd (run_merge example_env example_config example_source empty_target))"

definition after_second_run :: target_db where
  "after_second_run =
     fst (snd (run_merge later_env example_config example_source after_first_run))"

definition after_aborted_run :: target_db where
  "after_aborted_run =
     fst (snd (run_merge failing_env example_config two_images_source empty_target))"

definition dry_run_config :: MergeConfig where
  "dry_run_config = example_config\<lparr>dry_run := True\<rparr>"

definition after_dry_run :: target_db where
  "after_dry_run = fst (snd (run_merge example_env dry_run_config example_source empty_target))"

section \<open>The skip conditions of the image merge, as the specification words them\<close>

text \<open>
  The three conditions in the order of the specification; the first one that fails gives
  the reason for which the row is skipped, and \<open>None\<close> means that the row is migrated.
\<close>

definition first_failing_condition :: "int set \<Rightarrow> legacy_image \<Rightarrow> skip_reason option" where
  "first_failing_condition known_user_ids row =
     (case images_uploaded_by row of
        None \<Rightarrow> Some NoUploader
      | Some uploaded_by \<Rightarrow>
          if uploaded_by \<notin> known_user_ids then Some (UploaderMissing uploaded_by)
          else (case derive_aspect_id (images_kind row) of
                  Inl exc \<Rightarrow> Some (Unclassifiable exc)
                | Inr aspect_id \<Rightarrow> None))"

definition warnings :: "event list \<Rightarrow> event list" where
  "warnings tr = filter (\<lambda>ev. case ev of Warning uuid reason \<Rightarrow> True | _ \<Rightarrow> False) tr"

definition written_images :: "event list \<Rightarrow> image_entry list" where
  "written_images tr =
     concat (map (\<lambda>ev. case ev of Executed conn (UpsertImage entry) \<Rightarrow> [entry] | _ \<Rightarrow> []) tr)"

section \<open>Notions used to state the properties\<close>

text \<open>The world after the rows \<open>es\<close> of a batch have been upserted into \<open>tbl_image\<close>,
  \<open>m\<close> statements having been sent.\<close>

definition images_written :: "image_entry list \<Rightarrow> nat \<Rightarrow> world \<Rightarrow> world" where
  "images_written es m w =
     w\<lparr>db := (db w)\<lparr>tbl_image := fold (upsert i_uuid tbl_image_do_update) es (tbl_image (db w))\<rparr>,
       stmts := m,
       trace := trace w @ map (\<lambda>e. Executed Target (UpsertImage e)) es\<rparr>"

text \<open>An image row that may be written: its owner is a known user of the target, its
  aspect is one of the two required aspects, and it comes from a row of the source that
  passes the three conditions: it has the identifier and the uploader of that row, and
  its aspect is the one that \<open>derive_aspect_id\<close> gives for the kind of that row.\<close>

definition owned_and_classified ::
  "int set \<Rightarrow> legacy_image list \<Rightarrow> image_entry \<Rightarrow> bool" where
  "owned_and_classified known_user_ids rows e =
     ((\<exists>uid. i_user_id e = Some uid \<and> uid \<in> known_user_ids)
      \<and> i_aspect_id e \<in> {''card-background'', ''sega-passname''}
      \<and> (\<exists>row \<in> set rows.
            i_uuid e = images_uuid row
          \<and> i_user_id e = images_uploaded_by row
          \<and> derive_aspect_id (images_kind row) = Inr (i_aspect_id e)
          \<and> first_failing_condition known_user_ids row = None))"

text \<open>What a part of a run may do when it writes images of the source rows \<open>rows\<close>
  for the known users only: it
  extends the trace, it writes rows of \<open>tbl_image\<close> that are owned and classified, and
  only once both aspects are in \<open>tbl_image_aspect\<close>; it leaves \<open>tbl_user\<close> alone, and
  \<open>tbl_image\<close> changes by the rows written and by nothing else.\<close>

definition writes_valid_images ::
  "int set \<Rightarrow> legacy_image list \<Rightarrow> world \<Rightarrow> world \<Rightarrow> bool" where
  "writes_valid_images known_user_ids rows w w' =
     (\<exists>tr. trace w' = trace w @ tr
        \<and> list_all (owned_and_classified known_user_ids rows) (written_images tr)
        \<and> tbl_user (db w') = tbl_user (db w)
        \<and> tbl_image (db w')
            = fold (upsert i_uuid tbl_image_do_update) (written_images tr) (tbl_image (db w))
        \<and> dom (tbl_image_aspect (db w)) \<subseteq> dom (tbl_image_aspect (db w'))
        \<and> (written_images tr = []
            \<or> {''card-background'', ''sega-passname''} \<subseteq> dom (tbl_image_aspect (db w'))))"

text \<open>The warning that the image merge logs for a row, if it skips the row.\<close>

definition skip_warning :: "int set \<Rightarrow> legacy_image \<Rightarrow> event list" where
  "skip_warning known_user_ids row =
     (case first_failing_condition known_user_ids row of
        Some reason \<Rightarrow> [Warning (images_uuid row) reason]
      | None \<Rightarrow> [])"

text \<open>Rows without their times: \<open>timeless_user\<close> and \<open>timeless_image\<close> forget
  \<open>created_at\<close> and \<open>updated_at\<close>; \<open>user_of\<close> and \<open>image_of\<close> are what a legacy row is
  adapted to, the times apart.\<close>

definition timeless_user :: "user_entry \<Rightarrow> user_entry" where
  "timeless_user e = e\<lparr>u_created_at := naive 0, u_updated_at := naive 0\<rparr>"

definition timeless_image :: "image_entry \<Rightarrow> image_entry" where
  "timeless_image e = e\<lparr>i_created_at := naive 0, i_updated_at := naive 0\<rparr>"

definition user_of :: "legacy_user \<Rightarrow> user_entry" where
  "user_of row =
     \<lparr>u_id = users_id row,
      u_username = users_username row,
      u_password = users_hashed_password row,
      u_phone = None,
      u_privileges = normalize_privileges,
      u_created_at = naive 0,
      u_updated_at = naive 0\<rparr>"

definition image_of :: "legacy_image \<Rightarrow> string \<Rightarrow> image_entry" where
  "image_of row aspect_id =
     \<lparr>i_uuid = images_uuid row,
      i_user_id = images_uploaded_by row,
      i_aspect_id = aspect_id,
      i_name = build_image_name (images_label row) (images_uuid row) (images_kind row),
      i_description =
        build_image_description (images_label row) (images_category row) (images_kind row),
      i_visibility = 1,
      i_labels = build_image_labels (images_kind row) (images_category row),
      i_file_name = images_file_name row,
      i_metadata_id = images_trace_id row,
      i_created_at = naive 0,
      i_updated_at = naive 0\<rparr>"

text \<open>A row, a table and a target without the time of the last update.\<close>

definition without_updated_at_user :: "user_entry \<Rightarrow> user_entry" where
  "without_updated_at_user e = e\<lparr>u_updated_at := naive 0\<rparr>"

definition without_updated_at_image :: "image_entry \<Rightarrow> image_entry" where
  "without_updated_at_image e = e\<lparr>i_updated_at := naive 0\<rparr>"

definition without_updated_at :: "target_db \<Rightarrow> target_db" where
  "without_updated_at d =
     d\<lparr>tbl_user := map_option without_updated_at_user \<circ> tbl_user d,
       tbl_image := map_option without_updated_at_image \<circ> tbl_image d\<rparr>"

text \<open>The \<open>n + 1\<close>-th value that \<open>nextval\<close> hands out from a sequence.\<close>

fun drawn :: "nat \<Rightarrow> pg_sequence \<Rightarrow> error + int" where
  "drawn 0 s = (case nextval s of Inl e \<Rightarrow> Inl e | Inr (v, s') \<Rightarrow> Inr v)"
| "drawn (Suc n) s = (case nextval s of Inl e \<Rightarrow> Inl e | Inr (v, s') \<Rightarrow> drawn n s')"

text \<open>What a legacy image is migrated to, the times apart.\<close>

definition migrated_image :: "legacy_image \<Rightarrow> image_entry" where
  "migrated_image row =
     image_of row (case derive_aspect_id (images_kind row) of Inl e \<Rightarrow> [] | Inr a \<Rightarrow> a)"

text \<open>A row whose \<open>updated_at\<close> is a reading of the clock of the environment.\<close>

definition user_updated_now :: "env \<Rightarrow> user_entry \<Rightarrow> bool" where
  "user_updated_now env e = (\<exists>n. u_updated_at e = naive (clock env n))"

definition image_updated_now :: "env \<Rightarrow> image_entry \<Rightarrow> bool" where
  "image_updated_now env e = (\<exists>n. i_updated_at e = naive (clock env n))"

text \<open>A part of a run that logs no warning and upserts no image.\<close>

definition silent :: "world \<Rightarrow> world \<Rightarrow> bool" where
  "silent w w' = (\<exists>tr. trace w' = trace w @ tr \<and> warnings tr = [] \<and> written_images tr = [])"

section \<open>Properties of transform.py\<close>

lemma KIND_TO_ASPECT_keys_distinct:
  "distinct (map fst
     [(''BACKGROUND'', ''card-background''),
      (''FRAME'', ''card-background''),
      (''CHARACTER'', ''card-background''),
      (''MASK'', ''card-background''),
      (''LABEL'', ''card-background''),
      (''PASSNAME'', ''sega-passname'')])"
  by simp

lemma KIND_TO_ASPECT_Some:
  "KIND_TO_ASPECT key = Some aspect \<longleftrightarrow>
     (key, aspect) \<in> set
       [(''BACKGROUND'', ''card-background''),
        (''FRAME'', ''card-background''),
        (''CHARACTER'', ''card-background''),
        (''MASK'', ''card-background''),
        (''LABEL'', ''card-background''),
        (''PASSNAME'', ''sega-passname'')]"
  unfolding KIND_TO_ASPECT_def by (rule map_of_eq_Some_iff [OF KIND_TO_ASPECT_keys_distinct])

lemma KIND_TO_ASPECT_None:
  "KIND_TO_ASPECT key = None \<longleftrightarrow>
     key \<notin> {''BACKGROUND'', ''FRAME'', ''CHARACTER'', ''MASK'', ''LABEL'', ''PASSNAME''}"
  unfolding KIND_TO_ASPECT_def map_of_eq_None_iff by simp

lemma upper_char_lower_char: "upper_char (lower_char c) = upper_char c"
  by (simp add: upper_char_def lower_char_def ascii_lowercase_def ascii_uppercase_def)

lemma upper_char_idem: "upper_char (upper_char c) = upper_char c"
  by (simp add: upper_char_def ascii_lowercase_def ascii_uppercase_def)

lemma upper_lower: "upper (lower s) = upper s"
  by (simp add: upper_def lower_def upper_char_lower_char)

lemma upper_upper: "upper (upper s) = upper s"
  by (simp add: upper_def upper_char_idem)

lemma upper_eval:
  "upper ''frame'' = ''FRAME''"
  "upper ''PassName'' = ''PASSNAME''"
  "upper ''unknown'' = ''UNKNOWN''"
  "upper ''BACKGROUND'' = ''BACKGROUND''"
  by (simp_all add: upper_def upper_char_def ascii_lowercase_def ascii_uppercase_def)

lemma lower_eval:
  "lower ''BACKGROUND'' = ''background''"
  "lower ''FRAME'' = ''frame''"
  "lower ''Event'' = ''event''"
  "lower '' '' = '' ''"
  by (simp_all add: lower_def lower_char_def ascii_lowercase_def ascii_uppercase_def)

lemma strip_eval:
  "strip [] = []"
  "strip '' '' = []"
  "strip ''Event'' = ''Event''"
  by (simp_all add: strip_def is_space_def)

lemma blank_iff: "blank v \<longleftrightarrow> \<not> (truthy v \<and> strip (or_empty v) \<noteq> [])"
  by (cases v) (auto simp: blank_def truthy_def or_empty_def strip_eval)

lemma derive_aspect_id_range:
  "derive_aspect_id kind = Inr aspect \<Longrightarrow> aspect \<in> {''card-background'', ''sega-passname''}"
  by (auto simp: derive_aspect_id_def KIND_TO_ASPECT_Some split: option.splits)

lemma derive_aspect_id_error:
  "derive_aspect_id kind = Inl e \<Longrightarrow> e = UnknownAspectError kind"
  by (auto simp: derive_aspect_id_def split: option.splits)

text \<open>
  C6. For every kind whose upper-cased form is BACKGROUND, FRAME, CHARACTER, MASK or
  LABEL, \<open>derive_aspect_id\<close> returns \<open>card-background\<close>, and for PASSNAME it returns
  \<open>sega-passname\<close>; it raises, and then raises \<open>UnknownAspectError\<close>, exactly when the
  upper-cased kind is none of the six, which includes the absent and the empty kind.
  The case of the letters does not matter: the lower-cased and the upper-cased kind
  are mapped as the kind itself.
\<close>

theorem derive_aspect_id_spec:
  "(upper (or_empty kind) \<in> {''BACKGROUND'', ''FRAME'', ''CHARACTER'', ''MASK'', ''LABEL''}
      \<longrightarrow> derive_aspect_id kind = Inr ''card-background'')
   \<and> (upper (or_empty kind) = ''PASSNAME'' \<longrightarrow> derive_aspect_id kind = Inr ''sega-passname'')
   \<and> ((\<exists>e. derive_aspect_id kind = Inl e) \<longleftrightarrow>
        upper (or_empty kind)
          \<notin> {''BACKGROUND'', ''FRAME'', ''CHARACTER'', ''MASK'', ''LABEL'', ''PASSNAME''})
   \<and> (\<forall>e. derive_aspect_id kind = Inl e \<longrightarrow> e = UnknownAspectError kind)
   \<and> (\<forall>aspect. derive_aspect_id (map_option lower kind) = Inr aspect
                  \<longleftrightarrow> derive_aspect_id kind = Inr aspect)
   \<and> (\<forall>aspect. derive_aspect_id (map_option upper kind) = Inr aspect
                  \<longleftrightarrow> derive_aspect_id kind = Inr aspect)
   \<and> derive_aspect_id None = Inl (UnknownAspectError None)
   \<and> derive_aspect_id (Some []) = Inl (UnknownAspectError (Some []))"
proof -
  let ?key = "upper (or_empty kind)"
  have card: "derive_aspect_id kind = Inr ''card-background''"
    if "?key \<in> {''BACKGROUND'', ''FRAME'', ''CHARACTER'', ''MASK'', ''LABEL''}"
  proof -
    from that have "KIND_TO_ASPECT ?key = Some ''card-background''"
      unfolding KIND_TO_ASPECT_Some by auto
    then show ?thesis by (simp add: derive_aspect_id_def)
  qed
  have pass: "derive_aspect_id kind = Inr ''sega-passname''" if "?key = ''PASSNAME''"
  proof -
    from that have "KIND_TO_ASPECT ?key = Some ''sega-passname''"
      unfolding KIND_TO_ASPECT_Some by simp
    then show ?thesis by (simp add: derive_aspect_id_def)
  qed
  have fails: "(\<exists>e. derive_aspect_id kind = Inl e) \<longleftrightarrow>
        ?key \<notin> {''BACKGROUND'', ''FRAME'', ''CHARACTER'', ''MASK'', ''LABEL'', ''PASSNAME''}"
    unfolding KIND_TO_ASPECT_None [symmetric]
    by (simp add: derive_aspect_id_def split: option.split)
  have err: "\<forall>e. derive_aspect_id kind = Inl e \<longrightarrow> e = UnknownAspectError kind"
    by (simp add: derive_aspect_id_error)
  have low: "\<forall>aspect. derive_aspect_id (map_option lower kind) = Inr aspect
                  \<longleftrightarrow> derive_aspect_id kind = Inr aspect"
    by (cases kind) (simp_all add: derive_aspect_id_def or_empty_def upper_lower split: option.split)
  have up: "\<forall>aspect. derive_aspect_id (map_option upper kind) = Inr aspect
                  \<longleftrightarrow> derive_aspect_id kind = Inr aspect"
    by (cases kind) (simp_all add: derive_aspect_id_def or_empty_def upper_upper split: option.split)
  have none: "derive_aspect_id None = Inl (UnknownAspectError None)"
    by (simp add: derive_aspect_id_def or_empty_def upper_def KIND_TO_ASPECT_def)
  have empty: "derive_aspect_id (Some []) = Inl (UnknownAspectError (Some []))"
    by (simp add: derive_aspect_id_def or_empty_def upper_def KIND_TO_ASPECT_def)
  from card pass fails err low up none empty show ?thesis by blast
qed

theorem derive_aspect_id_spec_witness:
  "derive_aspect_id (Some ''frame'') = Inr ''card-background''
   \<and> derive_aspect_id (Some ''PassName'') = Inr ''sega-passname''
   \<and> derive_aspect_id (Some ''unknown'') = Inl (UnknownAspectError (Some ''unknown''))"
proof -
  have "derive_aspect_id (Some ''frame'') = Inr ''card-background''"
    using derive_aspect_id_spec [of "Some ''frame''"] by (simp add: or_empty_def upper_eval)
  moreover have "derive_aspect_id (Some ''PassName'') = Inr ''sega-passname''"
    using derive_aspect_id_spec [of "Some ''PassName''"] by (simp add: or_empty_def upper_eval)
  moreover have "derive_aspect_id (Some ''unknown'') = Inl (UnknownAspectError (Some ''unknown''))"
    using derive_aspect_id_spec [of "Some ''unknown''"] by (auto simp: or_empty_def upper_eval)
  ultimately show ?thesis by simp
qed

text \<open>
  C7, as amended. \<open>build_image_labels\<close> returns the lower-cased kind when the kind is
  not empty, followed by the lower-cased trimmed category when the category is not
  empty after trimming; when the kind is absent or empty and the category is absent or
  blank it returns the single label \<open>unclassified\<close>; the list is never empty.
\<close>

theorem build_image_labels_spec:
  "build_image_labels kind category =
     (let from_kind = (if truthy kind then [lower (or_empty kind)] else []);
          from_category = (if blank category then [] else [lower (strip (or_empty category))])
      in if from_kind @ from_category = [] then [''unclassified'']
         else from_kind @ from_category)
   \<and> (\<not> truthy kind \<and> blank category
        \<longrightarrow> build_image_labels kind category = [''unclassified''])
   \<and> build_image_labels kind category \<noteq> []"
  by (auto simp: build_image_labels_def Let_def blank_iff)

theorem build_image_labels_spec_witness:
  "build_image_labels (Some ''BACKGROUND'') None = [''background'']
   \<and> build_image_labels (Some ''FRAME'') (Some ''Event'') = [''frame'', ''event'']
   \<and> build_image_labels (Some []) (Some '' '') = [''unclassified'']"
proof -
  have "build_image_labels (Some ''BACKGROUND'') None = [''background'']"
    using build_image_labels_spec [of "Some ''BACKGROUND''" None]
    by (simp add: truthy_def blank_def or_empty_def lower_eval)
  moreover have "build_image_labels (Some ''FRAME'') (Some ''Event'') = [''frame'', ''event'']"
    using build_image_labels_spec [of "Some ''FRAME''" "Some ''Event''"]
    by (simp add: truthy_def blank_def or_empty_def lower_eval strip_eval)
  moreover have "build_image_labels (Some []) (Some '' '') = [''unclassified'']"
    using build_image_labels_spec [of "Some []" "Some '' ''"]
    by (simp add: truthy_def blank_def or_empty_def lower_eval strip_eval)
  ultimately show ?thesis by simp
qed

text \<open>
  The claim as written fails for a kind of white space only: such a kind is blank, and
  yet it is not empty, so it is appended as a label.
\<close>

theorem build_image_labels_blank_kind_counterexample:
  "blank (Some '' '') \<and> blank None
   \<and> build_image_labels (Some '' '') None = ['' '']
   \<and> build_image_labels (Some '' '') None \<noteq> [''unclassified'']"
  by (simp add: build_image_labels_def blank_def truthy_def or_empty_def lower_eval strip_eval)

section \<open>Properties of the database model\<close>

lemma io_bind_Inr:
  "io_bind m f w = (Inr y, w') \<longleftrightarrow> (\<exists>x w1. m w = (Inr x, w1) \<and> f x w1 = (Inr y, w'))"
  by (auto simp: io_bind_def split: prod.splits sum.splits)

lemma io_bind_Inl:
  "io_bind m f w = (Inl e, w') \<longleftrightarrow>
     m w = (Inl e, w') \<or> (\<exists>x w1. m w = (Inr x, w1) \<and> f x w1 = (Inl e, w'))"
  by (auto simp: io_bind_def split: prod.splits sum.splits)

lemma execute_Inr:
  "execute env conn s w = (Inr u, w') \<longleftrightarrow>
     \<not> fault env (stmts w) \<and>
     (\<exists>d. effect s (db w) = Inr d \<and>
        w' = w\<lparr>db := d, stmts := Suc (stmts w), trace := trace w @ [Executed conn s]\<rparr>)"
  by (auto simp: execute_def split: sum.splits)

lemma upsert_apply:
  "upsert key upd e m k =
     (if key e = k then Some (case m k of None \<Rightarrow> e | Some old \<Rightarrow> upd old e) else m k)"
  by (simp add: upsert_def split: option.split)

lemma upsert_fold:
  "fold (upsert key upd) es m k =
     (let fs = filter (\<lambda>e. key e = k) es
      in case m k of
           None \<Rightarrow> (case fs of [] \<Rightarrow> None | f # fs' \<Rightarrow> Some (foldl upd f fs'))
         | Some old \<Rightarrow> Some (foldl upd old fs))"
proof (induction es arbitrary: m)
  case Nil
  then show ?case by (simp split: option.split)
next
  case (Cons e es)
  have "fold (upsert key upd) (e # es) m k = fold (upsert key upd) es (upsert key upd e m) k"
    by simp
  also have "\<dots> = (let fs = filter (\<lambda>e. key e = k) es
      in case upsert key upd e m k of
           None \<Rightarrow> (case fs of [] \<Rightarrow> None | f # fs' \<Rightarrow> Some (foldl upd f fs'))
         | Some old \<Rightarrow> Some (foldl upd old fs))"
    by (rule Cons.IH)
  also have "\<dots> = (let fs = filter (\<lambda>e. key e = k) (e # es)
      in case m k of
           None \<Rightarrow> (case fs of [] \<Rightarrow> None | f # fs' \<Rightarrow> Some (foldl upd f fs'))
         | Some old \<Rightarrow> Some (foldl upd old fs))"
    by (simp add: upsert_apply Let_def split: option.split)
  finally show ?case .
qed

lemma dom_upsert: "dom (upsert key upd e m) = insert (key e) (dom m)"
  by (auto simp: upsert_apply dom_def)

lemma dom_upsert_fold: "dom (fold (upsert key upd) es m) = dom m \<union> key ` set es"
proof (induction es arbitrary: m)
  case Nil
  then show ?case by simp
next
  case (Cons e es)
  have "dom (fold (upsert key upd) (e # es) m) = dom (fold (upsert key upd) es (upsert key upd e m))"
    by simp
  also have "\<dots> = dom (upsert key upd e m) \<union> key ` set es"
    by (rule Cons.IH)
  finally show ?case by (simp add: dom_upsert)
qed

lemma executemany_upsert_users:
  "executemany env Target (map UpsertUser es) w = (Inr u, w') \<Longrightarrow>
     w' = w\<lparr>db := (db w)\<lparr>tbl_user := fold (upsert u_id tbl_user_do_update) es (tbl_user (db w))\<rparr>,
            stmts := stmts w + length es,
            trace := trace w @ map (\<lambda>e. Executed Target (UpsertUser e)) es\<rparr>"
proof (induction es arbitrary: w)
  case Nil
  then show ?case by simp
next
  case (Cons e es)
  from Cons.prems obtain w1 where
    1: "execute env Target (UpsertUser e) w = (Inr (), w1)" and
    2: "executemany env Target (map UpsertUser es) w1 = (Inr u, w')"
    by (auto split: prod.splits sum.splits)
  from 1 have w1: "w1 = w\<lparr>db := (db w)\<lparr>tbl_user := upsert u_id tbl_user_do_update e (tbl_user (db w))\<rparr>,
       stmts := Suc (stmts w), trace := trace w @ [Executed Target (UpsertUser e)]\<rparr>"
    by (auto simp: execute_Inr)
  show ?case
    unfolding Cons.IH [OF 2] w1 by simp
qed

lemma foldl_absorb:
  assumes "\<And>a b c. upd (upd a b) c = upd a c" and "fs \<noteq> []"
  shows "foldl upd old fs = upd old (last fs)"
  using assms(2)
proof (induction fs rule: rev_induct)
  case Nil
  then show ?case by simp
next
  case (snoc x xs)
  then show ?case by (cases "xs = []") (simp_all add: assms(1))
qed

lemma tbl_user_do_update_absorb:
  "tbl_user_do_update (tbl_user_do_update a b) c = tbl_user_do_update a c"
  by (simp add: tbl_user_do_update_def)

lemma tbl_image_do_update_absorb:
  "tbl_image_do_update (tbl_image_do_update a b) c = tbl_image_do_update a c"
  by (simp add: tbl_image_do_update_def)

lemma executemany_upsert_images:
  "executemany env Target (map UpsertImage es) w = (Inr u, w') \<Longrightarrow>
     w' = w\<lparr>db := (db w)\<lparr>tbl_image := fold (upsert i_uuid tbl_image_do_update) es (tbl_image (db w))\<rparr>,
            stmts := stmts w + length es,
            trace := trace w @ map (\<lambda>e. Executed Target (UpsertImage e)) es\<rparr>"
proof (induction es arbitrary: w)
  case Nil
  then show ?case by simp
next
  case (Cons e es)
  from Cons.prems obtain w1 where
    1: "execute env Target (UpsertImage e) w = (Inr (), w1)" and
    2: "executemany env Target (map UpsertImage es) w1 = (Inr u, w')"
    by (auto split: prod.splits sum.splits)
  from 1 have w1: "w1 = w\<lparr>db := (db w)\<lparr>tbl_image := upsert i_uuid tbl_image_do_update e (tbl_image (db w))\<rparr>,
       stmts := Suc (stmts w), trace := trace w @ [Executed Target (UpsertImage e)]\<rparr>"
    by (auto simp: execute_Inr)
  show ?case
    unfolding Cons.IH [OF 2] w1 by simp
qed

lemma upsert_users_Inr:
  "upsert_users env payload w = (Inr u, w') \<Longrightarrow>
     w' = w\<lparr>db := (db w)\<lparr>tbl_user := fold (upsert u_id tbl_user_do_update) payload (tbl_user (db w))\<rparr>,
            stmts := stmts w + length payload,
            trace := trace w @ map (\<lambda>e. Executed Target (UpsertUser e)) payload\<rparr>"
  by (cases "payload = []") (auto simp: upsert_users_def dest: executemany_upsert_users)

lemma upsert_images_Inr:
  "upsert_images env payload w = (Inr u, w') \<Longrightarrow>
     w' = w\<lparr>db := (db w)\<lparr>tbl_image := fold (upsert i_uuid tbl_image_do_update) payload (tbl_image (db w))\<rparr>,
            stmts := stmts w + length payload,
            trace := trace w @ map (\<lambda>e. Executed Target (UpsertImage e)) payload\<rparr>"
  by (cases "payload = []") (auto simp: upsert_images_def dest: executemany_upsert_images)

lemma upsert_fold_conflict:
  assumes "\<And>a b c. upd (upd a b) c = upd a c"
    and "m k = Some old" and "filter (\<lambda>e. key e = k) es \<noteq> []"
  shows "fold (upsert key upd) es m k = Some (upd old (last (filter (\<lambda>e. key e = k) es)))"
  using assms(2,3) by (simp add: upsert_fold Let_def foldl_absorb [of upd, OF assms(1)])

lemmas fixtures = naive_def example_env_def later_env_def example_seq_def empty_target_def
  stored_user_def incoming_user_def stored_image_def incoming_image_def stored_target_def
  alice_def bob_def image_of_alice_def image_of_nobody_def image_of_stranger_def
  image_of_unknown_kind_def example_source_def example_config_def
  second_image_def two_images_source_def failing_env_def

lemmas run_defs = run_merge_def merge_users_def merge_images_def io_bind_def io_return_def
  collect_existing_user_ids_def collect_existing_image_uuids_def execute_def
  sync_sequence_def begin_transactions_def upsert_users_def upsert_images_def
  adapt_user_row_def adapt_image_row_def ensure_datetime_def utcnow_def
  ensure_required_aspects_def required_def log_warning_def skip_row_def
  no_counts_def setval_def max_id_def coalesce_def rolled_back_def rollback_both_def
  commit_both_def astimezone_utc_def replace_tzinfo_None_def

text \<open>
  C8. When a batch is upserted and a row of the batch conflicts with a row of the
  target (on \<open>id\<close> for users, on \<open>uuid\<close> for images), the stored row takes every column
  from the incoming row (the last one of the batch with that key), except the key and
  \<open>created_at\<close>, which stay as they were in the existing row.
\<close>

theorem upsert_conflict_keeps_created_at:
  "(upsert_users env payload w = (Inr u, w') \<and> tbl_user (db w) k = Some old
      \<and> incoming = filter (\<lambda>e. u_id e = k) payload \<and> incoming \<noteq> []
    \<longrightarrow> (\<exists>new. tbl_user (db w') k = Some new
          \<and> u_username new = u_username (last incoming)
          \<and> u_password new = u_password (last incoming)
          \<and> u_phone new = u_phone (last incoming)
          \<and> u_privileges new = u_privileges (last incoming)
          \<and> u_updated_at new = u_updated_at (last incoming)
          \<and> u_created_at new = u_created_at old
          \<and> u_id new = u_id old))
   \<and> (upsert_images env payload' w = (Inr u, w') \<and> tbl_image (db w) k' = Some old'
      \<and> incoming' = filter (\<lambda>e. i_uuid e = k') payload' \<and> incoming' \<noteq> []
    \<longrightarrow> (\<exists>new. tbl_image (db w') k' = Some new
          \<and> i_user_id new = i_user_id (last incoming')
          \<and> i_aspect_id new = i_aspect_id (last incoming')
          \<and> i_name new = i_name (last incoming')
          \<and> i_description new = i_description (last incoming')
          \<and> i_visibility new = i_visibility (last incoming')
          \<and> i_labels new = i_labels (last incoming')
          \<and> i_file_name new = i_file_name (last incoming')
          \<and> i_metadata_id new = i_metadata_id (last incoming')
          \<and> i_updated_at new = i_updated_at (last incoming')
          \<and> i_created_at new = i_created_at old'
          \<and> i_uuid new = i_uuid old'))"
proof (intro conjI impI)
  assume a: "upsert_users env payload w = (Inr u, w') \<and> tbl_user (db w) k = Some old
      \<and> incoming = filter (\<lambda>e. u_id e = k) payload \<and> incoming \<noteq> []"
  then have "tbl_user (db w') k = fold (upsert u_id tbl_user_do_update) payload (tbl_user (db w)) k"
    by (auto dest: upsert_users_Inr)
  also have "\<dots> = Some (tbl_user_do_update old (last incoming))"
  proof -
    from a have 1: "tbl_user (db w) k = Some old"
      and 2: "filter (\<lambda>e. u_id e = k) payload \<noteq> []"
      and 3: "incoming = filter (\<lambda>e. u_id e = k) payload"
      by blast+
    show ?thesis
      unfolding 3 by (rule upsert_fold_conflict
          [where upd = tbl_user_do_update and key = u_id and m = "tbl_user (db w)",
           OF tbl_user_do_update_absorb 1 2])
  qed
  finally show "\<exists>new. tbl_user (db w') k = Some new
          \<and> u_username new = u_username (last incoming)
          \<and> u_password new = u_password (last incoming)
          \<and> u_phone new = u_phone (last incoming)
          \<and> u_privileges new = u_privileges (last incoming)
          \<and> u_updated_at new = u_updated_at (last incoming)
          \<and> u_created_at new = u_created_at old
          \<and> u_id new = u_id old"
    by (simp add: tbl_user_do_update_def)
next
  assume a: "upsert_images env payload' w = (Inr u, w') \<and> tbl_image (db w) k' = Some old'
      \<and> incoming' = filter (\<lambda>e. i_uuid e = k') payload' \<and> incoming' \<noteq> []"
  then have "tbl_image (db w') k' = fold (upsert i_uuid tbl_image_do_update) payload' (tbl_image (db w)) k'"
    by (auto dest: upsert_images_Inr)
  also have "\<dots> = Some (tbl_image_do_update old' (last incoming'))"
  proof -
    from a have 1: "tbl_image (db w) k' = Some old'"
      and 2: "filter (\<lambda>e. i_uuid e = k') payload' \<noteq> []"
      and 3: "incoming' = filter (\<lambda>e. i_uuid e = k') payload'"
      by blast+
    show ?thesis
      unfolding 3 by (rule upsert_fold_conflict
          [where upd = tbl_image_do_update and key = i_uuid and m = "tbl_image (db w)",
           OF tbl_image_do_update_absorb 1 2])
  qed
  finally show "\<exists>new. tbl_image (db w') k' = Some new
          \<and> i_user_id new = i_user_id (last incoming')
          \<and> i_aspect_id new = i_aspect_id (last incoming')
          \<and> i_name new = i_name (last incoming')
          \<and> i_description new = i_description (last incoming')
          \<and> i_visibility new = i_visibility (last incoming')
          \<and> i_labels new = i_labels (last incoming')
          \<and> i_file_name new = i_file_name (last incoming')
          \<and> i_metadata_id new = i_metadata_id (last incoming')
          \<and> i_updated_at new = i_updated_at (last incoming')
          \<and> i_created_at new = i_created_at old'
          \<and> i_uuid new = i_uuid old'"
    by (simp add: tbl_image_do_update_def)
qed

theorem upsert_conflict_keeps_created_at_witness:
  "(\<exists>new. tbl_user (db (snd (upsert_users example_env [incoming_user]
                                (begin_transactions stored_target)))) 1 = Some new
      \<and> u_username new = ''alice'' \<and> u_phone new = None
      \<and> u_updated_at new = naive 40 \<and> u_created_at new = naive 10)
   \<and> (\<exists>new. tbl_image (db (snd (upsert_images example_env [incoming_image]
                                (begin_transactions stored_target)))) ''u-1'' = Some new
      \<and> i_user_id new = Some 1 \<and> i_aspect_id new = ''card-background''
      \<and> i_updated_at new = naive 40 \<and> i_created_at new = naive 10)"
proof -
  let ?w = "begin_transactions stored_target"
  have users: "upsert_users example_env [incoming_user] ?w
      = (Inr (), snd (upsert_users example_env [incoming_user] ?w))"
    by (simp add: upsert_users_def execute_def example_env_def)
  have images: "upsert_images example_env [incoming_image] ?w
      = (Inr (), snd (upsert_images example_env [incoming_image] ?w))"
    by (simp add: upsert_images_def execute_def example_env_def)
  have old_user: "tbl_user (db ?w) 1 = Some stored_user"
    by (simp add: begin_transactions_def stored_target_def)
  have old_image: "tbl_image (db ?w) ''u-1'' = Some stored_image"
    by (simp add: begin_transactions_def stored_target_def)
  have in_user: "[incoming_user] = filter (\<lambda>e. u_id e = 1) [incoming_user]"
    by (simp add: incoming_user_def)
  have in_image: "[incoming_image] = filter (\<lambda>e. i_uuid e = ''u-1'') [incoming_image]"
    by (simp add: incoming_image_def)
  from upsert_conflict_keeps_created_at
         [where env = example_env and w = ?w and payload = "[incoming_user]" and u = "()"
            and w' = "snd (upsert_users example_env [incoming_user] ?w)"
            and k = 1 and old = stored_user and incoming = "[incoming_user]", THEN conjunct1]
       users old_user in_user
  have 1: "\<exists>new. tbl_user (db (snd (upsert_users example_env [incoming_user] ?w))) 1 = Some new
      \<and> u_username new = ''alice'' \<and> u_phone new = None
      \<and> u_updated_at new = naive 40 \<and> u_created_at new = naive 10"
    by (auto simp: incoming_user_def stored_user_def)
  from upsert_conflict_keeps_created_at
         [where env = example_env and w = ?w and payload' = "[incoming_image]" and u = "()"
            and w' = "snd (upsert_images example_env [incoming_image] ?w)"
            and k' = "''u-1''" and old' = stored_image and incoming' = "[incoming_image]",
          THEN conjunct2]
       images old_image in_image
  have 2: "\<exists>new. tbl_image (db (snd (upsert_images example_env [incoming_image] ?w))) ''u-1'' = Some new
      \<and> i_user_id new = Some 1 \<and> i_aspect_id new = ''card-background''
      \<and> i_updated_at new = naive 40 \<and> i_created_at new = naive 10"
    by (auto simp: incoming_image_def stored_image_def)
  from 1 2 show ?thesis by blast
qed

section \<open>Properties of merge.py\<close>

text \<open>
  C10. A legacy timestamp that is null becomes the reading of the clock at the moment
  the row is adapted (one more reading is taken; nothing is raised and nothing null is
  stored); an aware timestamp is converted to UTC and loses its time zone; a naive
  timestamp is passed on as it is. The \<open>created_at\<close> of a migrated user is made so from
  the legacy \<open>created_at\<close>, that of a migrated image from the legacy \<open>uploaded_at\<close>.
\<close>

theorem ensure_datetime_spec:
  "ensure_datetime env None w = (\<lparr>wall = clock env (ticks w), tzinfo = None\<rparr>, w\<lparr>ticks := Suc (ticks w)\<rparr>)
   \<and> (tzinfo d = Some utcoffset
        \<longrightarrow> ensure_datetime env (Some d) w = (\<lparr>wall = wall d - utcoffset, tzinfo = None\<rparr>, w))
   \<and> (tzinfo d = None \<longrightarrow> ensure_datetime env (Some d) w = (d, w))
   \<and> (users_created_at user_row = None
        \<longrightarrow> u_created_at (fst (adapt_user_row env user_row w))
              = \<lparr>wall = clock env (ticks w), tzinfo = None\<rparr>)
   \<and> (images_uploaded_at image_row = None
        \<longrightarrow> i_created_at (fst (adapt_image_row env image_row aspect_id w))
              = \<lparr>wall = clock env (ticks w), tzinfo = None\<rparr>)
   \<and> u_created_at (fst (adapt_user_row env user_row w))
       = fst (ensure_datetime env (users_created_at user_row) w)
   \<and> i_created_at (fst (adapt_image_row env image_row aspect_id w))
       = fst (ensure_datetime env (images_uploaded_at image_row) w)"
  by (simp add: ensure_datetime_def utcnow_def adapt_user_row_def adapt_image_row_def
      astimezone_utc_def replace_tzinfo_None_def Let_def split: prod.split)

theorem ensure_datetime_spec_witness:
  "u_created_at (fst (adapt_user_row example_env alice (begin_transactions empty_target))) = naive 1000
   \<and> u_created_at (fst (adapt_user_row example_env bob (begin_transactions empty_target))) = naive 500
   \<and> i_created_at (fst (adapt_image_row example_env image_of_alice ''card-background''
                           (begin_transactions empty_target))) = naive 700
   \<and> i_created_at (fst (adapt_image_row example_env (image_of_alice\<lparr>images_uploaded_at := None\<rparr>)
                           ''card-background'' (begin_transactions empty_target))) = naive 1000"
proof -
  let ?w = "begin_transactions empty_target"
  note spec = ensure_datetime_spec [where env = example_env and w = ?w]
  have "u_created_at (fst (adapt_user_row example_env alice ?w)) = naive 1000"
    using spec [where user_row = alice]
    by (simp add: alice_def naive_def example_env_def begin_transactions_def)
  moreover have "u_created_at (fst (adapt_user_row example_env bob ?w)) = naive 500"
    using spec [where user_row = bob and d = "\<lparr>wall = 3600000500, tzinfo = Some 3600000000\<rparr>"
        and utcoffset = 3600000000]
    by (simp add: bob_def naive_def)
  moreover have "i_created_at (fst (adapt_image_row example_env image_of_alice ''card-background'' ?w))
      = naive 700"
    using spec [where image_row = image_of_alice and aspect_id = "''card-background''"
        and d = "naive 700"]
    by (simp add: image_of_alice_def naive_def)
  moreover have "i_created_at (fst (adapt_image_row example_env
        (image_of_alice\<lparr>images_uploaded_at := None\<rparr>) ''card-background'' ?w)) = naive 1000"
    using spec [where image_row = "image_of_alice\<lparr>images_uploaded_at := None\<rparr>"
        and aspect_id = "''card-background''"]
    by (simp add: naive_def example_env_def begin_transactions_def)
  ultimately show ?thesis by simp
qed

subsection \<open>Statements and batches\<close>

lemma execute_cases:
  assumes "execute env conn s w = (r, w')"
  obtains (fault) "fault env (stmts w)" "r = Inl (DBError (stmts w))" "w' = w\<lparr>stmts := Suc (stmts w)\<rparr>"
  | (refused) e where "\<not> fault env (stmts w)" "effect s (db w) = Inl e" "r = Inl e"
      "w' = w\<lparr>stmts := Suc (stmts w)\<rparr>"
  | (executed) d where "\<not> fault env (stmts w)" "effect s (db w) = Inr d" "r = Inr ()"
      "w' = w\<lparr>db := d, stmts := Suc (stmts w), trace := trace w @ [Executed conn s]\<rparr>"
  using assms by (auto simp: execute_def split: if_splits sum.splits)

lemma images_written_Nil: "images_written [] (stmts w) w = w"
  by (simp add: images_written_def)

lemma images_written_Cons:
  "images_written es m
     (w\<lparr>db := (db w)\<lparr>tbl_image := upsert i_uuid tbl_image_do_update e (tbl_image (db w))\<rparr>,
        stmts := k, trace := trace w @ [Executed Target (UpsertImage e)]\<rparr>)
   = images_written (e # es) m w"
  by (simp add: images_written_def)

lemma executemany_upsert_images_any:
  "executemany env Target (map UpsertImage es) w = (r, w') \<Longrightarrow>
     \<exists>n m. w' = images_written (take n es) m w"
proof (induction es arbitrary: w)
  case Nil
  then have "w' = images_written (take 0 []) (stmts w) w"
    by (simp add: images_written_Nil)
  then show ?case by blast
next
  case (Cons e es)
  obtain r1 w1 where ex: "execute env Target (UpsertImage e) w = (r1, w1)"
    by (cases "execute env Target (UpsertImage e) w")
  from ex show ?case
  proof (cases rule: execute_cases)
    case fault
    with ex Cons.prems have "w' = w\<lparr>stmts := Suc (stmts w)\<rparr>"
      by auto
    then have "w' = images_written (take 0 (e # es)) (Suc (stmts w)) w"
      by (simp add: images_written_def)
    then show ?thesis by blast
  next
    case (refused e')
    then show ?thesis by simp
  next
    case (executed d)
    with ex Cons.prems have "executemany env Target (map UpsertImage es) w1 = (r, w')"
      by simp
    from Cons.IH [OF this] obtain n m where "w' = images_written (take n es) m w1"
      by blast
    with executed have "w' = images_written (take (Suc n) (e # es)) m w"
      by (auto simp: images_written_def)
    then show ?thesis by blast
  qed
qed

lemma upsert_images_any:
  "upsert_images env payload w = (r, w') \<Longrightarrow> \<exists>n m. w' = images_written (take n payload) m w"
proof (cases "payload = []")
  case True
  assume "upsert_images env payload w = (r, w')"
  with True have "w' = images_written (take 0 payload) (stmts w) w"
    by (simp add: upsert_images_def images_written_Nil)
  then show ?thesis by blast
next
  case False
  assume "upsert_images env payload w = (r, w')"
  with False show ?thesis
    by (auto simp: upsert_images_def dest: executemany_upsert_images_any)
qed

lemma adapt_image_row_fields:
  assumes "adapt_image_row env row aspect_id w = (entry, w1)"
  shows "i_uuid entry = images_uuid row" "i_user_id entry = images_uploaded_by row"
    "i_aspect_id entry = aspect_id" "db w1 = db w" "trace w1 = trace w" "stmts w1 = stmts w"
    "image_updated_now env entry"
  using assms
  by (auto simp: adapt_image_row_def ensure_datetime_def utcnow_def Let_def
      image_updated_now_def naive_def split: prod.splits option.splits)

lemma images_loop_skip:
  assumes "first_failing_condition known row = Some reason"
  shows "images_loop env bs known (row # rows) (summary, existing, payload) w =
     images_loop env bs known rows
       (summary\<lparr>processed := processed summary + 1, skipped := skipped summary + 1\<rparr>,
        existing, payload)
       (w\<lparr>trace := trace w @ [Warning (images_uuid row) reason]\<rparr>)"
  using assms
  by (auto simp: first_failing_condition_def skip_row_def log_warning_def
      split: option.splits if_splits sum.splits error.splits dest: derive_aspect_id_error)

lemma first_failing_condition_None:
  "first_failing_condition known row = None \<longleftrightarrow>
     (\<exists>uid aspect. images_uploaded_by row = Some uid \<and> uid \<in> known
        \<and> derive_aspect_id (images_kind row) = Inr aspect)"
  by (auto simp: first_failing_condition_def split: option.splits sum.splits)

lemma images_loop_accept:
  assumes "images_uploaded_by row = Some uid" "uid \<in> known"
    "derive_aspect_id (images_kind row) = Inr aspect"
    "adapt_image_row env row aspect w = (entry, w1)"
  shows "images_loop env bs known (row # rows) (summary, existing, payload) w =
     (let s1 = (if images_uuid row \<in> existing
                then summary\<lparr>processed := processed summary + 1, updated := updated summary + 1\<rparr>
                else summary\<lparr>processed := processed summary + 1, inserted := inserted summary + 1\<rparr>);
          ex1 = insert (images_uuid row) existing
      in if int (length (payload @ [entry])) \<ge> bs
         then io_bind (upsert_images env (payload @ [entry]))
                (\<lambda>_. images_loop env bs known rows (s1, ex1, [])) w1
         else images_loop env bs known rows (s1, ex1, payload @ [entry]) w1)"
  using assms
  by (auto simp: Let_def io_bind_def insert_absorb split: prod.splits sum.splits)

subsection \<open>Writing images for known users only\<close>

lemma written_images_append [simp]:
  "written_images (a @ b) = written_images a @ written_images b"
  by (simp add: written_images_def)

lemma written_images_Nil [simp]: "written_images [] = []"
  by (simp add: written_images_def)

lemma written_images_upserts [simp]:
  "written_images (map (\<lambda>e. Executed Target (UpsertImage e)) es) = es"
  by (induction es) (simp_all add: written_images_def)

lemma written_images_Warning [simp]: "written_images [Warning uuid reason] = []"
  by (simp add: written_images_def)

lemma writes_valid_images_refl: "writes_valid_images known all_rows w w"
  unfolding writes_valid_images_def by (rule exI [of _ "[]"]) simp

lemma writes_valid_images_trans:
  assumes "writes_valid_images known all_rows a b" "writes_valid_images known all_rows b c"
  shows "writes_valid_images known all_rows a c"
proof -
  from assms(1) obtain t1 where 1: "trace b = trace a @ t1"
    "list_all (owned_and_classified known all_rows) (written_images t1)"
    "tbl_user (db b) = tbl_user (db a)"
    "tbl_image (db b) = fold (upsert i_uuid tbl_image_do_update) (written_images t1) (tbl_image (db a))"
    "dom (tbl_image_aspect (db a)) \<subseteq> dom (tbl_image_aspect (db b))"
    "written_images t1 = [] \<or> {''card-background'', ''sega-passname''} \<subseteq> dom (tbl_image_aspect (db b))"
    unfolding writes_valid_images_def by blast
  from assms(2) obtain t2 where 2: "trace c = trace b @ t2"
    "list_all (owned_and_classified known all_rows) (written_images t2)"
    "tbl_user (db c) = tbl_user (db b)"
    "tbl_image (db c) = fold (upsert i_uuid tbl_image_do_update) (written_images t2) (tbl_image (db b))"
    "dom (tbl_image_aspect (db b)) \<subseteq> dom (tbl_image_aspect (db c))"
    "written_images t2 = [] \<or> {''card-background'', ''sega-passname''} \<subseteq> dom (tbl_image_aspect (db c))"
    unfolding writes_valid_images_def by blast
  have "trace c = trace a @ (t1 @ t2)" using 1(1) 2(1) by simp
  moreover have "list_all (owned_and_classified known all_rows) (written_images (t1 @ t2))"
    using 1(2) 2(2) by simp
  moreover have "tbl_user (db c) = tbl_user (db a)" using 1(3) 2(3) by simp
  moreover have "tbl_image (db c)
      = fold (upsert i_uuid tbl_image_do_update) (written_images (t1 @ t2)) (tbl_image (db a))"
    using 1(4) 2(4) by simp
  moreover have "dom (tbl_image_aspect (db a)) \<subseteq> dom (tbl_image_aspect (db c))"
    using 1(5) 2(5) by blast
  moreover have "written_images (t1 @ t2) = []
      \<or> {''card-background'', ''sega-passname''} \<subseteq> dom (tbl_image_aspect (db c))"
    using 1(6) 2(5,6) by auto
  ultimately show ?thesis unfolding writes_valid_images_def by blast
qed

lemma io_bind_preserves:
  assumes trans: "\<And>a b c. P a b \<Longrightarrow> P b c \<Longrightarrow> P a c"
    and first: "\<And>r w1. m w = (r, w1) \<Longrightarrow> P w w1"
    and rest: "\<And>x w1 r w2. m w = (Inr x, w1) \<Longrightarrow> f x w1 = (r, w2) \<Longrightarrow> P w1 w2"
    and run: "io_bind m f w = (r, w')"
  shows "P w w'"
proof (cases "m w")
  case (Pair r1 w1)
  show ?thesis
  proof (cases r1)
    case (Inl e)
    with Pair run have "w' = w1" by (simp add: io_bind_def)
    with first [OF Pair] show ?thesis by simp
  next
    case (Inr x)
    with Pair run have "f x w1 = (r, w')" by (simp add: io_bind_def)
    from rest [OF Pair [unfolded Inr] this] first [OF Pair] show ?thesis by (blast intro: trans)
  qed
qed

lemma writes_valid_images_trace_only:
  assumes "trace w' = trace w @ tr" "written_images tr = []" "db w' = db w"
  shows "writes_valid_images known all_rows w w'"
  unfolding writes_valid_images_def using assms by (intro exI [of _ tr]) simp

lemma writes_valid_images_written:
  assumes "list_all (owned_and_classified known all_rows) es"
    and "{''card-background'', ''sega-passname''} \<subseteq> dom (tbl_image_aspect (db w))"
  shows "writes_valid_images known all_rows w (images_written es m w)"
  unfolding writes_valid_images_def
  using assms
  by (intro exI [of _ "map (\<lambda>e. Executed Target (UpsertImage e)) es"])
     (simp add: images_written_def)

lemma images_loop_writes_valid:
  assumes "images_loop env bs known rows (summary, existing, payload) w = (r, w')"
    and "list_all (owned_and_classified known all_rows) payload"
    and "{''card-background'', ''sega-passname''} \<subseteq> dom (tbl_image_aspect (db w))"
    and "set rows \<subseteq> set all_rows"
  shows "writes_valid_images known all_rows w w'
     \<and> (\<forall>s' ex' pl'. r = Inr (s', ex', pl') \<longrightarrow> list_all (owned_and_classified known all_rows) pl')"
  using assms
proof (induction rows arbitrary: summary existing payload w)
  case Nil
  then show ?case by (auto simp: writes_valid_images_refl)
next
  case (Cons row rows)
  from Cons.prems(4) have mem: "row \<in> set all_rows" and sub: "set rows \<subseteq> set all_rows"
    by simp_all
  show ?case
  proof (cases "first_failing_condition known row")
    case (Some reason)
    let ?w1 = "w\<lparr>trace := trace w @ [Warning (images_uuid row) reason]\<rparr>"
    from Cons.prems(1) have run: "images_loop env bs known rows
       (summary\<lparr>processed := processed summary + 1, skipped := skipped summary + 1\<rparr>,
        existing, payload) ?w1 = (r, w')"
      by (simp only: images_loop_skip [OF Some])
    have "writes_valid_images known all_rows w ?w1"
      by (rule writes_valid_images_trace_only [where tr = "[Warning (images_uuid row) reason]"])
         simp_all
    moreover from Cons.IH [OF run Cons.prems(2) _ sub] Cons.prems(3)
    have "writes_valid_images known all_rows ?w1 w'
     \<and> (\<forall>s' ex' pl'. r = Inr (s', ex', pl') \<longrightarrow> list_all (owned_and_classified known all_rows) pl')"
      by simp
    ultimately show ?thesis by (blast intro: writes_valid_images_trans)
  next
    case None
    then obtain uid aspect where row: "images_uploaded_by row = Some uid" "uid \<in> known"
      "derive_aspect_id (images_kind row) = Inr aspect"
      unfolding first_failing_condition_None by blast
    obtain entry w1 where adapt: "adapt_image_row env row aspect w = (entry, w1)"
      by (cases "adapt_image_row env row aspect w")
    note f = adapt_image_row_fields [OF adapt]
    have "i_uuid entry = images_uuid row \<and> i_user_id entry = images_uploaded_by row
        \<and> derive_aspect_id (images_kind row) = Inr (i_aspect_id entry)
        \<and> first_failing_condition known row = None"
      using f row None by simp
    with mem have "\<exists>row \<in> set all_rows.
        i_uuid entry = images_uuid row \<and> i_user_id entry = images_uploaded_by row
        \<and> derive_aspect_id (images_kind row) = Inr (i_aspect_id entry)
        \<and> first_failing_condition known row = None"
      by (rule rev_bexI)
    then have good: "owned_and_classified known all_rows entry"
      using f row derive_aspect_id_range [OF row(3)] by (simp add: owned_and_classified_def)
    with Cons.prems(2) have pl: "list_all (owned_and_classified known all_rows) (payload @ [entry])"
      by simp
    have w1: "writes_valid_images known all_rows w w1"
      by (rule writes_valid_images_trace_only [where tr = "[]"]) (simp_all add: f)
    have asp1: "{''card-background'', ''sega-passname''} \<subseteq> dom (tbl_image_aspect (db w1))"
      using Cons.prems(3) f by simp
    let ?s1 = "if images_uuid row \<in> existing
                then summary\<lparr>processed := processed summary + 1, updated := updated summary + 1\<rparr>
                else summary\<lparr>processed := processed summary + 1, inserted := inserted summary + 1\<rparr>"
    let ?ex1 = "insert (images_uuid row) existing"
    note step = images_loop_accept [OF row adapt, of bs rows summary existing payload]
    have "writes_valid_images known all_rows w1 w'
     \<and> (\<forall>s' ex' pl'. r = Inr (s', ex', pl') \<longrightarrow> list_all (owned_and_classified known all_rows) pl')"
    proof (cases "int (length (payload @ [entry])) \<ge> bs")
      case True
      with step Cons.prems(1) have run: "io_bind (upsert_images env (payload @ [entry]))
                (\<lambda>_. images_loop env bs known rows (?s1, ?ex1, [])) w1 = (r, w')"
        by (simp add: Let_def)
      obtain r2 w2 where up: "upsert_images env (payload @ [entry]) w1 = (r2, w2)"
        by (cases "upsert_images env (payload @ [entry]) w1")
      from upsert_images_any [OF up] obtain n m where
        w2: "w2 = images_written (take n (payload @ [entry])) m w1" by blast
      have "list_all (owned_and_classified known all_rows) (take n (payload @ [entry]))"
        using pl by (auto simp: list_all_iff dest: in_set_takeD)
      from writes_valid_images_written [OF this asp1] w2
      have v2: "writes_valid_images known all_rows w1 w2" by simp
      have asp2: "{''card-background'', ''sega-passname''} \<subseteq> dom (tbl_image_aspect (db w2))"
        using asp1 w2 by (simp add: images_written_def)
      show ?thesis
      proof (cases r2)
        case (Inl e)
        with run up have "r = Inl e" "w' = w2" by (simp_all add: io_bind_def)
        with v2 show ?thesis by simp
      next
        case (Inr u)
        with run up have "images_loop env bs known rows (?s1, ?ex1, []) w2 = (r, w')"
          by (simp add: io_bind_def)
        from Cons.IH [OF this _ asp2 sub] v2 show ?thesis
          by (auto intro: writes_valid_images_trans)
      qed
    next
      case False
      with step Cons.prems(1) have "images_loop env bs known rows (?s1, ?ex1, payload @ [entry]) w1 = (r, w')"
        by (simp add: Let_def)
      from Cons.IH [OF this pl asp1 sub] show ?thesis .
    qed
    with w1 show ?thesis by (blast intro: writes_valid_images_trans)
  qed
qed

lemma execute_select_writes_valid:
  assumes "execute env conn s w = (r, w')"
    and "s \<in> {SelectUsers, SelectImages, SelectAspects} \<or> (\<exists>table column. s = SelectIds table column)"
  shows "writes_valid_images known all_rows w w'" "db w' = db w"
proof -
  from assms(2) have eff: "effect s (db w) = Inr (db w)"
    and wr: "written_images [Executed conn s] = []"
    by (auto simp: written_images_def)
  from assms(1) have "db w' = db w \<and> (\<exists>tr. trace w' = trace w @ tr \<and> written_images tr = [])"
  proof (cases rule: execute_cases)
    case fault
    then show ?thesis by simp
  next
    case (refused e)
    then show ?thesis by (simp add: eff)
  next
    case (executed d)
    with eff wr show ?thesis by simp
  qed
  then show "db w' = db w" "writes_valid_images known all_rows w w'"
    by (auto intro: writes_valid_images_trace_only)
qed

lemma executemany_insert_aspects:
  "executemany env Target (map InsertAspect rows) w = (r, w') \<Longrightarrow>
     writes_valid_images known all_rows w w'
     \<and> (\<forall>u. r = Inr u \<longrightarrow> a_id ` set rows \<subseteq> dom (tbl_image_aspect (db w')))"
proof (induction rows arbitrary: w)
  case Nil
  then show ?case by (auto simp: writes_valid_images_refl)
next
  case (Cons row rows)
  obtain r1 w1 where ex: "execute env Target (InsertAspect row) w = (r1, w1)"
    by (cases "execute env Target (InsertAspect row) w")
  from ex show ?case
  proof (cases rule: execute_cases)
    case fault
    with ex Cons.prems have "r = Inl (DBError (stmts w))" "w' = w\<lparr>stmts := Suc (stmts w)\<rparr>"
      by auto
    then show ?thesis
      by (auto intro: writes_valid_images_trace_only [where tr = "[]"])
  next
    case (refused e)
    then show ?thesis by simp
  next
    case (executed d)
    with ex Cons.prems have run: "executemany env Target (map InsertAspect rows) w1 = (r, w')"
      by simp
    from executed have d: "d = (db w)\<lparr>tbl_image_aspect :=
        upsert a_id (\<lambda>existing excluded. existing) row (tbl_image_aspect (db w))\<rparr>"
      by auto
    have 1: "writes_valid_images known all_rows w w1"
      unfolding writes_valid_images_def
      by (rule exI [of _ "[Executed Target (InsertAspect row)]"])
         (auto simp: executed d written_images_def dom_upsert)
    have "a_id row \<in> dom (tbl_image_aspect (db w1))"
      by (simp add: executed d dom_upsert)
    moreover from Cons.IH [OF run] have 2: "writes_valid_images known all_rows w1 w'"
      and 3: "\<forall>u. r = Inr u \<longrightarrow> a_id ` set rows \<subseteq> dom (tbl_image_aspect (db w'))"
      by blast+
    moreover from 2 have "dom (tbl_image_aspect (db w1)) \<subseteq> dom (tbl_image_aspect (db w'))"
      unfolding writes_valid_images_def by blast
    ultimately show ?thesis using 1 by (auto intro: writes_valid_images_trans)
  qed
qed

lemma ensure_required_aspects_writes_valid:
  assumes "ensure_required_aspects env w = (r, w')"
  shows "writes_valid_images known all_rows w w'"
    and "r = Inr u \<Longrightarrow> {''card-background'', ''sega-passname''} \<subseteq> dom (tbl_image_aspect (db w'))"
proof -
  let ?missing = "\<lambda>w. map snd (filter (\<lambda>(key, data). key \<notin> dom (tbl_image_aspect (db w))
      \<inter> {''card-background'', ''sega-passname''}) required)"
  let ?rest = "\<lambda>(_ :: unit) w. if ?missing w = [] then (Inr (), w)
           else executemany env Target (map InsertAspect (?missing w)) w"
  have run: "io_bind (execute env Target SelectAspects) ?rest w = (r, w')"
    using assms by (simp add: ensure_required_aspects_def Let_def)
  have rest: "writes_valid_images known all_rows w1 w2
      \<and> (\<forall>u. r2 = Inr u \<longrightarrow> {''card-background'', ''sega-passname''} \<subseteq> dom (tbl_image_aspect (db w2)))"
    if "?rest x w1 = (r2, w2)" for x w1 r2 w2
  proof (cases "?missing w1 = []")
    case True
    with that have "w2 = w1" by simp
    moreover from True have "{''card-background'', ''sega-passname''} \<subseteq> dom (tbl_image_aspect (db w1))"
      by (auto simp: required_def split: if_splits)
    ultimately show ?thesis by (simp add: writes_valid_images_refl)
  next
    case False
    with that have "executemany env Target (map InsertAspect (?missing w1)) w1 = (r2, w2)"
      by simp
    from executemany_insert_aspects [OF this, of known all_rows]
    have 1: "writes_valid_images known all_rows w1 w2"
      and 2: "\<forall>u. r2 = Inr u \<longrightarrow> a_id ` set (?missing w1) \<subseteq> dom (tbl_image_aspect (db w2))"
      by blast+
    from 1 have 3: "dom (tbl_image_aspect (db w1)) \<subseteq> dom (tbl_image_aspect (db w2))"
      unfolding writes_valid_images_def by blast
    have "{''card-background'', ''sega-passname''} \<subseteq> dom (tbl_image_aspect (db w2))"
      if "r2 = Inr u" for u
    proof -
      from 2 that have "a_id ` set (?missing w1) \<subseteq> dom (tbl_image_aspect (db w2))" by simp
      with 3 show ?thesis
        by (auto simp: required_def card_background_def sega_passname_def split: if_splits)
    qed
    with 1 show ?thesis by blast
  qed
  show "writes_valid_images known all_rows w w'"
  proof (rule io_bind_preserves [where P = "writes_valid_images known all_rows", OF _ _ _ run])
    show "\<And>a b c. writes_valid_images known all_rows a b \<Longrightarrow> writes_valid_images known all_rows b c \<Longrightarrow>
        writes_valid_images known all_rows a c"
      by (rule writes_valid_images_trans)
    show "\<And>r w1. execute env Target SelectAspects w = (r, w1) \<Longrightarrow> writes_valid_images known all_rows w w1"
      by (erule execute_select_writes_valid) simp
    show "\<And>x w1 r w2. execute env Target SelectAspects w = (Inr x, w1) \<Longrightarrow> ?rest x w1 = (r, w2) \<Longrightarrow>
        writes_valid_images known all_rows w1 w2"
      using rest by blast
  qed
  show "{''card-background'', ''sega-passname''} \<subseteq> dom (tbl_image_aspect (db w'))" if "r = Inr u"
  proof -
    from run that obtain x w1 where "?rest x w1 = (Inr u, w')"
      by (auto simp: io_bind_Inr)
    from rest [OF this] show ?thesis by blast
  qed
qed

lemma io_bind_cases:
  assumes "io_bind m f w = (r, w')"
  obtains (raised) e where "m w = (Inl e, w')" "r = Inl e"
  | (continued) x w1 where "m w = (Inr x, w1)" "f x w1 = (r, w')"
  using assms by (auto simp: io_bind_def split: prod.splits sum.splits)

lemma collect_existing_user_ids_cases:
  assumes "collect_existing_user_ids env w = (r, w')"
  shows "writes_valid_images known all_rows w w'" "db w' = db w"
    "r = Inr ids \<Longrightarrow> ids = dom (tbl_user (db w))"
proof -
  from assms [unfolded collect_existing_user_ids_def]
  have "writes_valid_images known all_rows w w' \<and> db w' = db w
      \<and> (\<forall>ids. r = Inr ids \<longrightarrow> ids = dom (tbl_user (db w)))"
  proof (cases rule: io_bind_cases)
    case (raised e)
    have "writes_valid_images known all_rows w w'" "db w' = db w"
      by (rule execute_select_writes_valid [OF raised(1)], simp)+
    with raised(2) show ?thesis by simp
  next
    case (continued x w1)
    have "writes_valid_images known all_rows w w1" "db w1 = db w"
      by (rule execute_select_writes_valid [OF continued(1)], simp)+
    with continued(2) show ?thesis by auto
  qed
  then show "writes_valid_images known all_rows w w'" "db w' = db w"
    "r = Inr ids \<Longrightarrow> ids = dom (tbl_user (db w))" by blast+
qed

lemma collect_existing_image_uuids_cases:
  assumes "collect_existing_image_uuids env w = (r, w')"
  shows "writes_valid_images known all_rows w w'" "db w' = db w"
    "r = Inr ids \<Longrightarrow> ids = dom (tbl_image (db w))"
proof -
  from assms [unfolded collect_existing_image_uuids_def]
  have "writes_valid_images known all_rows w w' \<and> db w' = db w
      \<and> (\<forall>ids. r = Inr ids \<longrightarrow> ids = dom (tbl_image (db w)))"
  proof (cases rule: io_bind_cases)
    case (raised e)
    have "writes_valid_images known all_rows w w'" "db w' = db w"
      by (rule execute_select_writes_valid [OF raised(1)], simp)+
    with raised(2) show ?thesis by simp
  next
    case (continued x w1)
    have "writes_valid_images known all_rows w w1" "db w1 = db w"
      by (rule execute_select_writes_valid [OF continued(1)], simp)+
    with continued(2) show ?thesis by auto
  qed
  then show "writes_valid_images known all_rows w w'" "db w' = db w"
    "r = Inr ids \<Longrightarrow> ids = dom (tbl_image (db w))" by blast+
qed

lemma merge_images_writes_valid:
  assumes "merge_images env bs src w = (r, w')"
  shows "writes_valid_images (dom (tbl_user (db w))) (images_table src) w w'"
proof -
  let ?K = "dom (tbl_user (db w))"
  let ?R = "images_table src"
  note tr = writes_valid_images_trans
  from assms [unfolded merge_images_def] show ?thesis
  proof (cases rule: io_bind_cases)
    case (raised e)
    then show ?thesis by (simp add: ensure_required_aspects_writes_valid(1))
  next
    case 1: (continued u1 w1)
    note v1 = ensure_required_aspects_writes_valid(1) [OF 1(1), of ?K ?R]
    note a1 = ensure_required_aspects_writes_valid(2) [OF 1(1) refl]
    from v1 have u1: "tbl_user (db w1) = tbl_user (db w)"
      unfolding writes_valid_images_def by blast
    from 1(2) show ?thesis
    proof (cases rule: io_bind_cases)
      case (raised e)
      from collect_existing_image_uuids_cases(1) [OF raised(1), of ?K ?R] v1 show ?thesis
        by (rule tr [rotated])
    next
      case 2: (continued existing_uuids w2)
      note v2 = collect_existing_image_uuids_cases(1) [OF 2(1), of ?K ?R]
      note d2 = collect_existing_image_uuids_cases(2) [OF 2(1)]
      from 2(2) show ?thesis
      proof (cases rule: io_bind_cases)
        case (raised e)
        from collect_existing_user_ids_cases(1) [OF raised(1), of ?K ?R] v1 v2 show ?thesis
          by (blast intro: tr)
      next
        case 3: (continued known_user_ids w3)
        note v3 = collect_existing_user_ids_cases(1) [OF 3(1), of ?K ?R]
        note d3 = collect_existing_user_ids_cases(2) [OF 3(1)]
        have known: "known_user_ids = ?K"
          using collect_existing_user_ids_cases(3) [OF 3(1) refl] d2 u1 by simp
        from 3(2) show ?thesis
        proof (cases rule: io_bind_cases)
          case (raised e)
          have "writes_valid_images ?K ?R w3 w'"
            by (rule execute_select_writes_valid [OF raised(1)]) simp
          with v1 v2 v3 show ?thesis
            by (blast intro: tr)
        next
          case 4: (continued u4 w4)
          have v4: "writes_valid_images ?K ?R w3 w4" and d4: "db w4 = db w3"
            by (rule execute_select_writes_valid [OF 4(1)], simp)+
          have a4: "{''card-background'', ''sega-passname''} \<subseteq> dom (tbl_image_aspect (db w4))"
            using a1 d2 d3 d4 by simp
          from 4(2) show ?thesis
          proof (cases rule: io_bind_cases)
            case (raised e)
            from images_loop_writes_valid [OF raised(1) [unfolded known] _ a4 subset_refl]
            have "writes_valid_images ?K ?R w4 w'" by simp
            with v1 v2 v3 v4 show ?thesis by (blast intro: tr)
          next
            case 5: (continued st w5)
            obtain summary ex payload where st: "st = (summary, ex, payload)"
              by (cases st)
            from images_loop_writes_valid [OF 5(1) [unfolded known st] _ a4 subset_refl]
            have v5: "writes_valid_images ?K ?R w4 w5"
              and p5: "list_all (owned_and_classified ?K ?R) payload" by simp_all
            from v5 a4 have a5: "{''card-background'', ''sega-passname''} \<subseteq> dom (tbl_image_aspect (db w5))"
              unfolding writes_valid_images_def by blast
            have "writes_valid_images ?K ?R w5 w'"
            proof (cases "payload = []")
              case True
              with 5(2) st have "w' = w5" by (simp add: io_bind_def io_return_def)
              then show ?thesis by (simp add: writes_valid_images_refl)
            next
              case False
              obtain r6 w6 where up: "upsert_images env payload w5 = (r6, w6)"
                by (cases "upsert_images env payload w5")
              with 5(2) st False have "w' = w6"
                by (auto simp: io_bind_def io_return_def split: sum.splits)
              moreover from upsert_images_any [OF up] obtain n m where
                "w6 = images_written (take n payload) m w5" by blast
              moreover have "list_all (owned_and_classified ?K ?R) (take n payload)"
                using p5 by (auto simp: list_all_iff dest: in_set_takeD)
              ultimately show ?thesis
                using writes_valid_images_written [OF _ a5] by simp
            qed
            with v1 v2 v3 v4 v5 show ?thesis by (blast intro: tr)
          qed
        qed
      qed
    qed
  qed
qed

lemma example_merge_images:
  "merge_images example_env 500 example_source (begin_transactions stored_target) = (r, w')
   \<Longrightarrow> r = Inr \<lparr>processed = 4, inserted = 0, updated = 1, skipped = 3\<rparr>
     \<and> map (\<lambda>e. (i_uuid e, i_user_id e, i_aspect_id e)) (written_images (trace w'))
         = [(''u-1'', Some 1, ''card-background'')]"
  by (auto simp add: fixtures run_defs Let_def upsert_def upper_eval derive_aspect_id_def
      KIND_TO_ASPECT_def or_empty_def written_images_def)

lemma same_key_same_row:
  assumes "distinct (map key rows)" "a \<in> set rows" "b \<in> set rows" "key a = key b"
  shows "a = b"
  using assms by (meson distinct_map inj_onD)

text \<open>
  C1. Whatever the image merge does, and however it ends, every row it upserts into
  \<open>tbl_image\<close> has an owner that is a member of the set of user identifiers of the
  target as the merge found it when it started (in \<open>run_merge\<close>: after the user merge),
  and an aspect that is \<open>card-background\<close> or \<open>sega-passname\<close> and is in
  \<open>tbl_image_aspect\<close>. Every such row comes from a row of the legacy images that passes
  the three conditions: it has the identifier and the uploader of that legacy row, and
  its aspect is the one that \<open>derive_aspect_id\<close> gives for the kind of that legacy row.
  \<open>tbl_image\<close> changes by these upserts only. A row with no owner, with an unknown owner
  or of a kind without aspect is never written: when the identifiers of the legacy images
  are distinct, the identifier of a legacy row that fails a condition is the identifier
  of no row written.
\<close>

theorem merge_images_writes_owned_and_classified:
  "merge_images env bs src w = (r, w') \<Longrightarrow>
     \<exists>tr. trace w' = trace w @ tr
       \<and> (\<forall>e \<in> set (written_images tr).
             (\<exists>uid. i_user_id e = Some uid \<and> uid \<in> dom (tbl_user (db w)))
             \<and> i_aspect_id e \<in> {''card-background'', ''sega-passname''}
             \<and> i_aspect_id e \<in> dom (tbl_image_aspect (db w'))
             \<and> (\<exists>row \<in> set (images_table src).
                   i_uuid e = images_uuid row
                 \<and> i_user_id e = images_uploaded_by row
                 \<and> derive_aspect_id (images_kind row) = Inr (i_aspect_id e)
                 \<and> first_failing_condition (dom (tbl_user (db w))) row = None))
       \<and> (distinct (map images_uuid (images_table src)) \<longrightarrow>
            (\<forall>row \<in> set (images_table src).
               first_failing_condition (dom (tbl_user (db w))) row \<noteq> None
               \<longrightarrow> images_uuid row \<notin> i_uuid ` set (written_images tr)))
       \<and> tbl_image (db w')
           = fold (upsert i_uuid tbl_image_do_update) (written_images tr) (tbl_image (db w))"
proof -
  let ?K = "dom (tbl_user (db w))"
  assume "merge_images env bs src w = (r, w')"
  from merge_images_writes_valid [OF this] obtain tr where
    tr: "trace w' = trace w @ tr"
    and good: "list_all (owned_and_classified ?K (images_table src)) (written_images tr)"
    and tbl: "tbl_image (db w')
        = fold (upsert i_uuid tbl_image_do_update) (written_images tr) (tbl_image (db w))"
    and asp: "written_images tr = []
        \<or> {''card-background'', ''sega-passname''} \<subseteq> dom (tbl_image_aspect (db w'))"
    unfolding writes_valid_images_def by blast
  have each: "(\<exists>uid. i_user_id e = Some uid \<and> uid \<in> ?K)
      \<and> i_aspect_id e \<in> {''card-background'', ''sega-passname''}
      \<and> i_aspect_id e \<in> dom (tbl_image_aspect (db w'))
      \<and> (\<exists>row \<in> set (images_table src).
             i_uuid e = images_uuid row
           \<and> i_user_id e = images_uploaded_by row
           \<and> derive_aspect_id (images_kind row) = Inr (i_aspect_id e)
           \<and> first_failing_condition ?K row = None)"
    if "e \<in> set (written_images tr)" for e
  proof -
    from good that have "owned_and_classified ?K (images_table src) e"
      by (simp add: list_all_iff)
    moreover from asp that
    have "{''card-background'', ''sega-passname''} \<subseteq> dom (tbl_image_aspect (db w'))"
      by auto
    ultimately show ?thesis unfolding owned_and_classified_def by blast
  qed
  have never: "images_uuid row \<notin> i_uuid ` set (written_images tr)"
    if d: "distinct (map images_uuid (images_table src))"
      and row: "row \<in> set (images_table src)"
      and fails: "first_failing_condition ?K row \<noteq> None" for row
  proof
    assume "images_uuid row \<in> i_uuid ` set (written_images tr)"
    then obtain e where e: "e \<in> set (written_images tr)" "i_uuid e = images_uuid row"
      by auto
    from each [OF e(1)] obtain row' where row': "row' \<in> set (images_table src)"
      "i_uuid e = images_uuid row'" "first_failing_condition ?K row' = None"
      by blast
    from same_key_same_row [OF d row row'(1)] e(2) row'(2) have "row = row'" by simp
    with fails row'(3) show False by simp
  qed
  from tr each never tbl show ?thesis
    by (intro exI [of _ tr] conjI ballI impI) auto
qed

theorem merge_images_writes_owned_and_classified_witness:
  "\<exists>e. written_images (trace (snd (merge_images example_env 500 example_source
                                       (begin_transactions stored_target)))) = [e]
     \<and> i_uuid e = ''u-1''
     \<and> i_user_id e = Some 1
     \<and> 1 \<in> dom (tbl_user (db (begin_transactions stored_target)))
     \<and> i_aspect_id e = ''card-background''
     \<and> i_aspect_id e \<in> dom (tbl_image_aspect (db (snd (merge_images example_env 500
                                   example_source (begin_transactions stored_target)))))
     \<and> i_uuid e = images_uuid image_of_alice
     \<and> i_user_id e = images_uploaded_by image_of_alice
     \<and> derive_aspect_id (images_kind image_of_alice) = Inr (i_aspect_id e)
     \<and> first_failing_condition (dom (tbl_user (db (begin_transactions stored_target))))
           image_of_alice = None
     \<and> first_failing_condition (dom (tbl_user (db (begin_transactions stored_target))))
           image_of_nobody = Some NoUploader
     \<and> images_uuid image_of_nobody \<notin> i_uuid ` {e}"
proof -
  let ?w = "begin_transactions stored_target"
  let ?K = "dom (tbl_user (db ?w))"
  let ?res = "merge_images example_env 500 example_source ?w"
  have run: "?res = (fst ?res, snd ?res)" by simp
  from merge_images_writes_owned_and_classified [OF run] obtain tr where
    tr: "trace (snd ?res) = trace ?w @ tr"
    and good: "\<forall>e \<in> set (written_images tr).
             (\<exists>uid. i_user_id e = Some uid \<and> uid \<in> ?K)
             \<and> i_aspect_id e \<in> {''card-background'', ''sega-passname''}
             \<and> i_aspect_id e \<in> dom (tbl_image_aspect (db (snd ?res)))
             \<and> (\<exists>row \<in> set (images_table example_source).
                   i_uuid e = images_uuid row
                 \<and> i_user_id e = images_uploaded_by row
                 \<and> derive_aspect_id (images_kind row) = Inr (i_aspect_id e)
                 \<and> first_failing_condition ?K row = None)"
    and never: "distinct (map images_uuid (images_table example_source)) \<longrightarrow>
            (\<forall>row \<in> set (images_table example_source).
               first_failing_condition ?K row \<noteq> None
               \<longrightarrow> images_uuid row \<notin> i_uuid ` set (written_images tr))"
    by blast
  have "trace ?w = []" by (simp add: begin_transactions_def)
  with tr have tr': "tr = trace (snd ?res)" by simp
  from example_merge_images [OF run] have
    "map (\<lambda>e. (i_uuid e, i_user_id e, i_aspect_id e)) (written_images (trace (snd ?res)))
         = [(''u-1'', Some 1, ''card-background'')]"
    by blast
  then obtain e where e: "written_images (trace (snd ?res)) = [e]" "i_uuid e = ''u-1''"
    "i_user_id e = Some 1" "i_aspect_id e = ''card-background''"
    by auto
  from good e(1) tr' have asp: "i_aspect_id e \<in> dom (tbl_image_aspect (db (snd ?res)))"
    and own: "\<exists>uid. i_user_id e = Some uid \<and> uid \<in> ?K"
    and "\<exists>row \<in> set (images_table example_source).
                   i_uuid e = images_uuid row
                 \<and> i_user_id e = images_uploaded_by row
                 \<and> derive_aspect_id (images_kind row) = Inr (i_aspect_id e)
                 \<and> first_failing_condition ?K row = None"
    by simp_all
  then have from_row: "i_uuid e = images_uuid image_of_alice
     \<and> i_user_id e = images_uploaded_by image_of_alice
     \<and> derive_aspect_id (images_kind image_of_alice) = Inr (i_aspect_id e)
     \<and> first_failing_condition ?K image_of_alice = None"
    using e(2)
    by (auto simp: example_source_def image_of_alice_def image_of_nobody_def
        image_of_stranger_def image_of_unknown_kind_def)
  have nobody: "first_failing_condition ?K image_of_nobody = Some NoUploader"
    by (simp add: first_failing_condition_def image_of_nobody_def)
  have "distinct (map images_uuid (images_table example_source))"
    by (simp add: example_source_def image_of_alice_def image_of_nobody_def
        image_of_stranger_def image_of_unknown_kind_def)
  with never nobody e(1) tr'
  have "images_uuid image_of_nobody \<notin> i_uuid ` {e}"
    by (simp add: example_source_def)
  with e asp own from_row nobody show ?thesis
    by (intro exI [of _ e]) auto
qed

subsection \<open>The loop of the image merge\<close>

lemma warnings_append [simp]: "warnings (a @ b) = warnings a @ warnings b"
  by (simp add: warnings_def)

lemma warnings_Nil [simp]: "warnings [] = []"
  by (simp add: warnings_def)

lemma warnings_Warning [simp]: "warnings [Warning uuid reason] = [Warning uuid reason]"
  by (simp add: warnings_def)

lemma warnings_upserts [simp]:
  "warnings (map (\<lambda>e. Executed Target (UpsertImage e)) es) = []"
  by (induction es) (simp_all add: warnings_def)

lemma warnings_Cons_Warning [simp]:
  "warnings (Warning uuid reason # tr) = Warning uuid reason # warnings tr"
  by (simp add: warnings_def)

lemma written_images_Cons_Warning [simp]:
  "written_images (Warning uuid reason # tr) = written_images tr"
  by (simp add: written_images_def)

lemma warnings_Cons_Executed [simp]:
  "warnings (Executed conn s # tr) = warnings tr"
  by (simp add: warnings_def)

lemma written_images_Cons_UpsertImage [simp]:
  "written_images (Executed conn (UpsertImage e) # tr) = e # written_images tr"
  by (simp add: written_images_def)

lemma images_loop_accounts:
  assumes "images_loop env bs known rows (summary, existing, payload) w = (Inr (s', ex', pl'), w')"
  shows "\<exists>tr. trace w' = trace w @ tr
     \<and> warnings tr = concat (map (skip_warning known) rows)
     \<and> map i_uuid (written_images tr @ pl')
         = map i_uuid payload
           @ map images_uuid (filter (\<lambda>row. first_failing_condition known row = None) rows)
     \<and> processed s' = processed summary + int (length rows)
     \<and> skipped s' = skipped summary
         + int (length (filter (\<lambda>row. first_failing_condition known row \<noteq> None) rows))
     \<and> inserted s' + updated s' = inserted summary + updated summary
         + int (length (filter (\<lambda>row. first_failing_condition known row = None) rows))"
  using assms
proof (induction rows arbitrary: summary existing payload w)
  case Nil
  then show ?case by simp
next
  case (Cons row rows)
  show ?case
  proof (cases "first_failing_condition known row")
    case (Some reason)
    let ?w1 = "w\<lparr>trace := trace w @ [Warning (images_uuid row) reason]\<rparr>"
    from Cons.prems have run: "images_loop env bs known rows
       (summary\<lparr>processed := processed summary + 1, skipped := skipped summary + 1\<rparr>,
        existing, payload) ?w1 = (Inr (s', ex', pl'), w')"
      by (simp only: images_loop_skip [OF Some])
    from Cons.IH [OF run] obtain tr where
      "trace w' = trace ?w1 @ tr"
      "warnings tr = concat (map (skip_warning known) rows)"
      "map i_uuid (written_images tr @ pl')
         = map i_uuid payload
           @ map images_uuid (filter (\<lambda>row. first_failing_condition known row = None) rows)"
      "processed s' = processed summary + 1 + int (length rows)"
      "skipped s' = skipped summary + 1
         + int (length (filter (\<lambda>row. first_failing_condition known row \<noteq> None) rows))"
      "inserted s' + updated s' = inserted summary + updated summary
         + int (length (filter (\<lambda>row. first_failing_condition known row = None) rows))"
      by auto
    moreover from Some have "skip_warning known row = [Warning (images_uuid row) reason]"
      by (simp add: skip_warning_def)
    ultimately show ?thesis using Some
      by (intro exI [of _ "Warning (images_uuid row) reason # tr"]) simp
  next
    case None
    then obtain uid aspect where row: "images_uploaded_by row = Some uid" "uid \<in> known"
      "derive_aspect_id (images_kind row) = Inr aspect"
      unfolding first_failing_condition_None by blast
    obtain entry w1 where adapt: "adapt_image_row env row aspect w = (entry, w1)"
      by (cases "adapt_image_row env row aspect w")
    note f = adapt_image_row_fields [OF adapt]
    let ?s1 = "if images_uuid row \<in> existing
                then summary\<lparr>processed := processed summary + 1, updated := updated summary + 1\<rparr>
                else summary\<lparr>processed := processed summary + 1, inserted := inserted summary + 1\<rparr>"
    let ?ex1 = "insert (images_uuid row) existing"
    note step = images_loop_accept [OF row adapt, of bs rows summary existing payload]
    have s1: "processed ?s1 = processed summary + 1" "skipped ?s1 = skipped summary"
      "inserted ?s1 + updated ?s1 = inserted summary + updated summary + 1"
      by simp_all
    have "\<exists>tr. trace w' = trace w1 @ tr
       \<and> warnings tr = concat (map (skip_warning known) rows)
       \<and> map i_uuid (written_images tr @ pl')
         = map i_uuid (payload @ [entry])
           @ map images_uuid (filter (\<lambda>row. first_failing_condition known row = None) rows)
       \<and> processed s' = processed ?s1 + int (length rows)
       \<and> skipped s' = skipped ?s1
         + int (length (filter (\<lambda>row. first_failing_condition known row \<noteq> None) rows))
       \<and> inserted s' + updated s' = inserted ?s1 + updated ?s1
         + int (length (filter (\<lambda>row. first_failing_condition known row = None) rows))"
    proof (cases "int (length (payload @ [entry])) \<ge> bs")
      case True
      with step Cons.prems have "io_bind (upsert_images env (payload @ [entry]))
                (\<lambda>_. images_loop env bs known rows (?s1, ?ex1, [])) w1 = (Inr (s', ex', pl'), w')"
        by (simp add: Let_def)
      then obtain u w2 where up: "upsert_images env (payload @ [entry]) w1 = (Inr u, w2)"
        and run: "images_loop env bs known rows (?s1, ?ex1, []) w2 = (Inr (s', ex', pl'), w')"
        unfolding io_bind_Inr by blast
      note w2 = upsert_images_Inr [OF up]
      from Cons.IH [OF run] obtain tr where
        "trace w' = trace w2 @ tr"
        "warnings tr = concat (map (skip_warning known) rows)"
        "map i_uuid (written_images tr @ pl')
           = map images_uuid (filter (\<lambda>row. first_failing_condition known row = None) rows)"
        "processed s' = processed ?s1 + int (length rows)"
        "skipped s' = skipped ?s1
           + int (length (filter (\<lambda>row. first_failing_condition known row \<noteq> None) rows))"
        "inserted s' + updated s' = inserted ?s1 + updated ?s1
           + int (length (filter (\<lambda>row. first_failing_condition known row = None) rows))"
        by auto
      then show ?thesis
        by (intro exI [of _ "map (\<lambda>e. Executed Target (UpsertImage e)) (payload @ [entry]) @ tr"])
           (simp add: w2)
    next
      case False
      with step Cons.prems have
        "images_loop env bs known rows (?s1, ?ex1, payload @ [entry]) w1 = (Inr (s', ex', pl'), w')"
        by (simp add: Let_def)
      from Cons.IH [OF this] show ?thesis .
    qed
    then obtain tr where
      "trace w' = trace w1 @ tr"
      "warnings tr = concat (map (skip_warning known) rows)"
      "map i_uuid (written_images tr @ pl')
         = map i_uuid (payload @ [entry])
           @ map images_uuid (filter (\<lambda>row. first_failing_condition known row = None) rows)"
      "processed s' = processed ?s1 + int (length rows)"
      "skipped s' = skipped ?s1
         + int (length (filter (\<lambda>row. first_failing_condition known row \<noteq> None) rows))"
      "inserted s' + updated s' = inserted ?s1 + updated ?s1
         + int (length (filter (\<lambda>row. first_failing_condition known row = None) rows))"
      by blast
    moreover from None have "skip_warning known row = []"
      by (simp add: skip_warning_def)
    ultimately show ?thesis using None f s1
      by (intro exI [of _ tr]) simp
  qed
qed

lemma derive_aspect_id_eval:
  "derive_aspect_id (Some ''frame'') = Inr ''card-background''"
  "derive_aspect_id (Some ''unknown'') = Inl (UnknownAspectError (Some ''unknown''))"
  by (simp_all add: derive_aspect_id_def or_empty_def upper_eval KIND_TO_ASPECT_def)

lemma first_failing_condition_eval:
  "first_failing_condition {1} image_of_nobody = Some NoUploader"
  "first_failing_condition {1} image_of_stranger = Some (UploaderMissing 99)"
  "first_failing_condition {1} image_of_unknown_kind
     = Some (Unclassifiable (UnknownAspectError (Some ''unknown'')))"
  "first_failing_condition {1} image_of_alice = None"
  by (simp_all add: first_failing_condition_def image_of_nobody_def image_of_stranger_def
      image_of_unknown_kind_def image_of_alice_def derive_aspect_id_eval)

lemma example_images_loop:
  "\<exists>s ex pl w'.
     images_loop example_env 500 {1} (images_table example_source) (no_counts, {}, [])
       (begin_transactions stored_target) = (Inr (s, ex, pl), w')"
  by (simp add: fixtures run_defs Let_def derive_aspect_id_eval)

subsection \<open>The image merge as a whole\<close>

lemma silent_refl: "silent w w"
  unfolding silent_def by (rule exI [of _ "[]"]) simp

lemma silent_trans:
  assumes "silent a b" "silent b c"
  shows "silent a c"
proof -
  from assms(1) obtain t1 where 1: "trace b = trace a @ t1" "warnings t1 = []"
    "written_images t1 = []"
    unfolding silent_def by blast
  from assms(2) obtain t2 where 2: "trace c = trace b @ t2" "warnings t2 = []"
    "written_images t2 = []"
    unfolding silent_def by blast
  from 1 2 show ?thesis
    unfolding silent_def by (intro exI [of _ "t1 @ t2"]) simp
qed

lemma execute_silent:
  assumes "execute env conn s w = (r, w')" and "\<And>entry. s \<noteq> UpsertImage entry"
  shows "silent w w'"
proof -
  have wr: "written_images [Executed conn s] = []"
    using assms(2) by (cases s) (auto simp: written_images_def)
  from assms(1) show ?thesis
  proof (cases rule: execute_cases)
    case fault
    then show ?thesis unfolding silent_def by (intro exI [of _ "[]"]) simp
  next
    case (refused e)
    then show ?thesis unfolding silent_def by (intro exI [of _ "[]"]) simp
  next
    case (executed d)
    with wr show ?thesis
      unfolding silent_def by (intro exI [of _ "[Executed conn s]"]) (simp add: warnings_def)
  qed
qed

lemma execute_Inl:
  assumes "execute env conn s w = (Inl e, w')"
    and "\<And>sequence table column. s \<noteq> SetvalMax sequence table column"
  shows "fault env (stmts w) \<and> e = DBError (stmts w)"
  using assms by (cases s) (auto simp: execute_def split: if_splits)

lemma executemany_insert_aspects_silent:
  "executemany env Target (map InsertAspect rows) w = (r, w') \<Longrightarrow>
     silent w w' \<and> (\<forall>e. r = Inl e \<longrightarrow> (\<exists>n. fault env n \<and> e = DBError n))"
proof (induction rows arbitrary: w)
  case Nil
  then show ?case by (auto simp: silent_refl)
next
  case (Cons row rows)
  obtain r1 w1 where ex: "execute env Target (InsertAspect row) w = (r1, w1)"
    by (cases "execute env Target (InsertAspect row) w")
  have s1: "silent w w1"
    by (rule execute_silent [OF ex]) simp
  show ?case
  proof (cases r1)
    case (Inl e)
    with ex Cons.prems have "r = Inl e" "w' = w1" by simp_all
    moreover from execute_Inl [OF ex [unfolded Inl]]
    have "fault env (stmts w) \<and> e = DBError (stmts w)" by simp
    ultimately show ?thesis using s1 by auto
  next
    case (Inr u)
    with ex Cons.prems have "executemany env Target (map InsertAspect rows) w1 = (r, w')"
      by simp
    from Cons.IH [OF this] s1 show ?thesis by (blast intro: silent_trans)
  qed
qed

lemma ensure_required_aspects_silent:
  assumes "ensure_required_aspects env w = (r, w')"
  shows "silent w w'" and "r = Inl e \<Longrightarrow> \<exists>n. fault env n \<and> e = DBError n"
proof -
  let ?missing = "\<lambda>w. map snd (filter (\<lambda>(key, data). key \<notin> dom (tbl_image_aspect (db w))
      \<inter> {''card-background'', ''sega-passname''}) required)"
  let ?rest = "\<lambda>(_ :: unit) w. if ?missing w = [] then (Inr (), w)
           else executemany env Target (map InsertAspect (?missing w)) w"
  have run: "io_bind (execute env Target SelectAspects) ?rest w = (r, w')"
    using assms by (simp add: ensure_required_aspects_def Let_def)
  have rest: "silent w1 w2 \<and> (\<forall>e. r2 = Inl e \<longrightarrow> (\<exists>n. fault env n \<and> e = DBError n))"
    if "?rest x w1 = (r2, w2)" for x w1 r2 w2
  proof (cases "?missing w1 = []")
    case True
    with that have "w2 = w1" "r2 = Inr ()" by simp_all
    then show ?thesis by (simp add: silent_refl)
  next
    case False
    with that have "executemany env Target (map InsertAspect (?missing w1)) w1 = (r2, w2)"
      by simp
    then show ?thesis by (rule executemany_insert_aspects_silent)
  qed
  from run have "silent w w' \<and> (\<forall>e. r = Inl e \<longrightarrow> (\<exists>n. fault env n \<and> e = DBError n))"
  proof (cases rule: io_bind_cases)
    case (raised e)
    have "silent w w'" by (rule execute_silent [OF raised(1)]) simp
    moreover from execute_Inl [OF raised(1)]
    have "fault env (stmts w) \<and> e = DBError (stmts w)" by simp
    ultimately show ?thesis using raised(2) by auto
  next
    case (continued x w1)
    have "silent w w1" by (rule execute_silent [OF continued(1)]) simp
    with rest [OF continued(2)] show ?thesis by (blast intro: silent_trans)
  qed
  then show "silent w w'" and "r = Inl e \<Longrightarrow> \<exists>n. fault env n \<and> e = DBError n"
    by blast+
qed

lemma collect_existing_user_ids_silent:
  assumes "collect_existing_user_ids env w = (r, w')"
  shows "silent w w'" and "r = Inl e \<Longrightarrow> \<exists>n. fault env n \<and> e = DBError n"
proof -
  from assms [unfolded collect_existing_user_ids_def]
  have "silent w w' \<and> (\<forall>e. r = Inl e \<longrightarrow> (\<exists>n. fault env n \<and> e = DBError n))"
  proof (cases rule: io_bind_cases)
    case (raised e)
    have "silent w w'" by (rule execute_silent [OF raised(1)]) simp
    moreover from execute_Inl [OF raised(1)]
    have "fault env (stmts w) \<and> e = DBError (stmts w)" by simp
    ultimately show ?thesis using raised(2) by auto
  next
    case (continued x w1)
    have "silent w w1" by (rule execute_silent [OF continued(1)]) simp
    with continued(2) show ?thesis by auto
  qed
  then show "silent w w'" and "r = Inl e \<Longrightarrow> \<exists>n. fault env n \<and> e = DBError n"
    by blast+
qed

lemma collect_existing_image_uuids_silent:
  assumes "collect_existing_image_uuids env w = (r, w')"
  shows "silent w w'" and "r = Inl e \<Longrightarrow> \<exists>n. fault env n \<and> e = DBError n"
proof -
  from assms [unfolded collect_existing_image_uuids_def]
  have "silent w w' \<and> (\<forall>e. r = Inl e \<longrightarrow> (\<exists>n. fault env n \<and> e = DBError n))"
  proof (cases rule: io_bind_cases)
    case (raised e)
    have "silent w w'" by (rule execute_silent [OF raised(1)]) simp
    moreover from execute_Inl [OF raised(1)]
    have "fault env (stmts w) \<and> e = DBError (stmts w)" by simp
    ultimately show ?thesis using raised(2) by auto
  next
    case (continued x w1)
    have "silent w w1" by (rule execute_silent [OF continued(1)]) simp
    with continued(2) show ?thesis by auto
  qed
  then show "silent w w'" and "r = Inl e \<Longrightarrow> \<exists>n. fault env n \<and> e = DBError n"
    by blast+
qed

lemma executemany_upsert_images_Inl:
  "executemany env Target (map UpsertImage es) w = (Inl e, w') \<Longrightarrow>
     \<exists>n. fault env n \<and> e = DBError n"
proof (induction es arbitrary: w)
  case Nil
  then show ?case by simp
next
  case (Cons entry es)
  obtain r1 w1 where ex: "execute env Target (UpsertImage entry) w = (r1, w1)"
    by (cases "execute env Target (UpsertImage entry) w")
  show ?case
  proof (cases r1)
    case (Inl e1)
    with ex Cons.prems have "e = e1" by simp
    with execute_Inl [OF ex [unfolded Inl]] show ?thesis by auto
  next
    case (Inr u)
    with ex Cons.prems have "executemany env Target (map UpsertImage es) w1 = (Inl e, w')"
      by simp
    then show ?thesis by (rule Cons.IH)
  qed
qed

lemma upsert_images_Inl:
  "upsert_images env payload w = (Inl e, w') \<Longrightarrow> \<exists>n. fault env n \<and> e = DBError n"
  by (cases "payload = []") (auto simp: upsert_images_def dest: executemany_upsert_images_Inl)

lemma images_loop_Inl:
  assumes "images_loop env bs known rows (summary, existing, payload) w = (Inl e, w')"
  shows "\<exists>n. fault env n \<and> e = DBError n"
  using assms
proof (induction rows arbitrary: summary existing payload w)
  case Nil
  then show ?case by simp
next
  case (Cons row rows)
  show ?case
  proof (cases "first_failing_condition known row")
    case (Some reason)
    from Cons.prems have "images_loop env bs known rows
       (summary\<lparr>processed := processed summary + 1, skipped := skipped summary + 1\<rparr>,
        existing, payload) (w\<lparr>trace := trace w @ [Warning (images_uuid row) reason]\<rparr>)
       = (Inl e, w')"
      by (simp only: images_loop_skip [OF Some])
    then show ?thesis by (rule Cons.IH)
  next
    case None
    then obtain uid aspect where row: "images_uploaded_by row = Some uid" "uid \<in> known"
      "derive_aspect_id (images_kind row) = Inr aspect"
      unfolding first_failing_condition_None by blast
    obtain entry w1 where adapt: "adapt_image_row env row aspect w = (entry, w1)"
      by (cases "adapt_image_row env row aspect w")
    let ?s1 = "if images_uuid row \<in> existing
                then summary\<lparr>processed := processed summary + 1, updated := updated summary + 1\<rparr>
                else summary\<lparr>processed := processed summary + 1, inserted := inserted summary + 1\<rparr>"
    let ?ex1 = "insert (images_uuid row) existing"
    note step = images_loop_accept [OF row adapt, of bs rows summary existing payload]
    show ?thesis
    proof (cases "int (length (payload @ [entry])) \<ge> bs")
      case True
      with step Cons.prems have "io_bind (upsert_images env (payload @ [entry]))
                (\<lambda>_. images_loop env bs known rows (?s1, ?ex1, [])) w1 = (Inl e, w')"
        by (simp add: Let_def)
      then show ?thesis
      proof (cases rule: io_bind_cases)
        case (raised e1)
        then show ?thesis by (auto dest: upsert_images_Inl)
      next
        case (continued x w2)
        from continued(2) show ?thesis by (rule Cons.IH)
      qed
    next
      case False
      with step Cons.prems have
        "images_loop env bs known rows (?s1, ?ex1, payload @ [entry]) w1 = (Inl e, w')"
        by (simp add: Let_def)
      then show ?thesis by (rule Cons.IH)
    qed
  qed
qed

lemma merge_images_Inl:
  assumes "merge_images env bs src w = (Inl e, w')"
  shows "\<exists>n. fault env n \<and> e = DBError n"
proof -
  from assms [unfolded merge_images_def] show ?thesis
  proof (cases rule: io_bind_cases)
    case (raised e1)
    with ensure_required_aspects_silent(2) [OF raised(1) refl] show ?thesis by simp
  next
    case 1: (continued u1 w1)
    from 1(2) show ?thesis
    proof (cases rule: io_bind_cases)
      case (raised e1)
      with collect_existing_image_uuids_silent(2) [OF raised(1) refl] show ?thesis by simp
    next
      case 2: (continued existing_uuids w2)
      from 2(2) show ?thesis
      proof (cases rule: io_bind_cases)
        case (raised e1)
        with collect_existing_user_ids_silent(2) [OF raised(1) refl] show ?thesis by simp
      next
        case 3: (continued known_user_ids w3)
        from 3(2) show ?thesis
        proof (cases rule: io_bind_cases)
          case (raised e1)
          from execute_Inl [OF raised(1)] raised(2) show ?thesis by auto
        next
          case 4: (continued u4 w4)
          from 4(2) show ?thesis
          proof (cases rule: io_bind_cases)
            case (raised e1)
            from images_loop_Inl [OF raised(1)] raised(2) show ?thesis by simp
          next
            case 5: (continued st w5)
            obtain summary ex payload where st: "st = (summary, ex, payload)"
              by (cases st)
            show ?thesis
            proof (cases "payload = []")
              case True
              with 5(2) st show ?thesis by (simp add: io_bind_def io_return_def)
            next
              case False
              with 5(2) st obtain w6 where "upsert_images env payload w5 = (Inl e, w6)"
                by (auto simp: io_bind_def io_return_def split: sum.splits prod.splits)
              then show ?thesis by (rule upsert_images_Inl)
            qed
          qed
        qed
      qed
    qed
  qed
qed

lemma merge_images_accounts:
  assumes "merge_images env bs src w = (Inr s, w')"
  shows "\<exists>tr. trace w' = trace w @ tr
     \<and> warnings tr = concat (map (skip_warning (dom (tbl_user (db w)))) (images_table src))
     \<and> map i_uuid (written_images tr)
         = map images_uuid
             (filter (\<lambda>row. first_failing_condition (dom (tbl_user (db w))) row = None)
                (images_table src))
     \<and> processed s = int (length (images_table src))
     \<and> skipped s = int (length
           (filter (\<lambda>row. first_failing_condition (dom (tbl_user (db w))) row \<noteq> None)
              (images_table src)))
     \<and> inserted s + updated s = int (length
           (filter (\<lambda>row. first_failing_condition (dom (tbl_user (db w))) row = None)
              (images_table src)))"
proof -
  let ?K = "dom (tbl_user (db w))"
  let ?ok = "\<lambda>row. first_failing_condition ?K row = None"
  from assms [unfolded merge_images_def io_bind_Inr] obtain u1 w1 uuids w2 known w3 u4 w4 st w5
    where 1: "ensure_required_aspects env w = (Inr u1, w1)"
      and 2: "collect_existing_image_uuids env w1 = (Inr uuids, w2)"
      and 3: "collect_existing_user_ids env w2 = (Inr known, w3)"
      and 4: "execute env Source SelectImages w3 = (Inr u4, w4)"
      and 5: "images_loop env bs known (images_table src) (no_counts, uuids, []) w4 = (Inr st, w5)"
      and 6: "(case st of (summary, existing_uuids, payload) \<Rightarrow> \<lambda>w.
                 io_bind (if payload \<noteq> [] then upsert_images env payload else io_return ())
                   (\<lambda>_. io_return summary) w) w5 = (Inr s, w')"
    by blast
  obtain summary ex payload where st: "st = (summary, ex, payload)" by (cases st)
  from 6 [unfolded st] obtain u6 where
    7: "(if payload \<noteq> [] then upsert_images env payload else io_return ()) w5 = (Inr u6, w')"
    and 8: "summary = s"
    by (auto simp: io_bind_Inr io_return_def)
  have u1: "tbl_user (db w1) = tbl_user (db w)"
    using ensure_required_aspects_writes_valid(1) [OF 1, of ?K "images_table src"]
    unfolding writes_valid_images_def by blast
  have d2: "db w2 = db w1"
    using collect_existing_image_uuids_cases(2) [OF 2] .
  have known: "known = dom (tbl_user (db w2))"
    using collect_existing_user_ids_cases(3) [OF 3 refl] .
  have K: "known = ?K" using known d2 u1 by simp
  have "silent w w1" by (rule ensure_required_aspects_silent(1) [OF 1])
  moreover have "silent w1 w2" by (rule collect_existing_image_uuids_silent(1) [OF 2])
  moreover have "silent w2 w3" by (rule collect_existing_user_ids_silent(1) [OF 3])
  moreover have "silent w3 w4" by (rule execute_silent [OF 4]) simp
  ultimately have "silent w w4" by (blast intro: silent_trans)
  then obtain t0 where t0: "trace w4 = trace w @ t0" "warnings t0 = []" "written_images t0 = []"
    unfolding silent_def by blast
  from images_loop_accounts [OF 5 [unfolded st K]] obtain t1 where t1:
    "trace w5 = trace w4 @ t1"
    "warnings t1 = concat (map (skip_warning ?K) (images_table src))"
    "map i_uuid (written_images t1 @ payload)
       = map i_uuid ([] :: image_entry list) @ map images_uuid (filter ?ok (images_table src))"
    "processed summary = processed no_counts + int (length (images_table src))"
    "skipped summary = skipped no_counts
       + int (length (filter (\<lambda>row. first_failing_condition ?K row \<noteq> None) (images_table src)))"
    "inserted summary + updated summary = inserted no_counts + updated no_counts
       + int (length (filter ?ok (images_table src)))"
    by blast
  have t2: "trace w' = trace w5 @ map (\<lambda>e. Executed Target (UpsertImage e)) payload"
  proof (cases "payload = []")
    case True
    with 7 show ?thesis by (simp add: io_return_def)
  next
    case False
    with 7 have "upsert_images env payload w5 = (Inr u6, w')" by simp
    from upsert_images_Inr [OF this] show ?thesis by simp
  qed
  from t0 t1 t2 8 show ?thesis
    by (intro exI [of _ "t0 @ t1 @ map (\<lambda>e. Executed Target (UpsertImage e)) payload"])
       (simp add: no_counts_def)
qed

text \<open>
  C2. The image merge tests a row for a missing uploader, then for an uploader that is
  not a known user of the target, then for a kind without aspect, and the first of
  these that fails decides. When \<open>merge_images\<close> returns, the warnings it has logged are
  those of the rows that fail a test, one for each such row with the reason of the first
  test that fails, in the order of the rows; the rows it has written are the other rows,
  all of them and in order, also those that follow a skipped row; \<open>processed\<close> is the
  number of rows and \<open>skipped\<close> the number of rows that fail a test. A skip never aborts
  the run: what \<open>merge_images\<close> raises has been raised by the driver on a statement, and
  when the driver raises on no statement \<open>merge_images\<close> returns, whatever the rows.
  In the loop, a row that fails a test makes the loop go on with the rows that follow,
  with the row counted once as processed and once as skipped, the warning with that
  reason logged, and the batch, the set of known images and the target as they were.
\<close>

theorem merge_images_skips_first_failing:
  "(merge_images env bs src v = (Inr result, v') \<longrightarrow>
      (\<exists>tr. trace v' = trace v @ tr
         \<and> warnings tr
             = concat (map (skip_warning (dom (tbl_user (db v)))) (images_table src))
         \<and> map i_uuid (written_images tr)
             = map images_uuid
                 (filter (\<lambda>row. first_failing_condition (dom (tbl_user (db v))) row = None)
                    (images_table src))
         \<and> processed result = int (length (images_table src))
         \<and> skipped result = int (length
               (filter (\<lambda>row. first_failing_condition (dom (tbl_user (db v))) row \<noteq> None)
                  (images_table src)))))
   \<and> (merge_images env bs src v = (Inl raised, v') \<longrightarrow>
        (\<exists>n. fault env n \<and> raised = DBError n))
   \<and> ((\<forall>n. \<not> fault env n) \<longrightarrow> (\<exists>summary v'. merge_images env bs src v = (Inr summary, v')))
   \<and> (first_failing_condition known row = Some reason \<longrightarrow>
      images_loop env bs known (row # rows) (summary, existing, payload) w =
      images_loop env bs known rows
        (summary\<lparr>processed := processed summary + 1, skipped := skipped summary + 1\<rparr>,
         existing, payload)
        (w\<lparr>trace := trace w @ [Warning (images_uuid row) reason]\<rparr>))
   \<and> (images_loop env bs known all_rows (summary, existing, payload) w = (Inr (s', ex', pl'), w')
      \<longrightarrow> (\<exists>tr. trace w' = trace w @ tr
            \<and> warnings tr = concat (map (skip_warning known) all_rows)
            \<and> map i_uuid (written_images tr @ pl')
                = map i_uuid payload
                  @ map images_uuid
                      (filter (\<lambda>row. first_failing_condition known row = None) all_rows)
            \<and> processed s' = processed summary + int (length all_rows)
            \<and> skipped s' = skipped summary
                + int (length (filter (\<lambda>row. first_failing_condition known row \<noteq> None)
                                 all_rows))))
   \<and> (images_uploaded_by row = None \<longrightarrow> first_failing_condition known row = Some NoUploader)
   \<and> (images_uploaded_by row = Some uid \<and> uid \<notin> known
        \<longrightarrow> first_failing_condition known row = Some (UploaderMissing uid))
   \<and> (images_uploaded_by row = Some uid \<and> uid \<in> known
        \<and> derive_aspect_id (images_kind row) = Inl exc
        \<longrightarrow> first_failing_condition known row = Some (Unclassifiable exc))
   \<and> (images_uploaded_by row = Some uid \<and> uid \<in> known
        \<and> derive_aspect_id (images_kind row) = Inr aspect
        \<longrightarrow> first_failing_condition known row = None)"
proof (intro conjI impI)
  assume "merge_images env bs src v = (Inr result, v')"
  from merge_images_accounts [OF this]
  show "\<exists>tr. trace v' = trace v @ tr
         \<and> warnings tr
             = concat (map (skip_warning (dom (tbl_user (db v)))) (images_table src))
         \<and> map i_uuid (written_images tr)
             = map images_uuid
                 (filter (\<lambda>row. first_failing_condition (dom (tbl_user (db v))) row = None)
                    (images_table src))
         \<and> processed result = int (length (images_table src))
         \<and> skipped result = int (length
               (filter (\<lambda>row. first_failing_condition (dom (tbl_user (db v))) row \<noteq> None)
                  (images_table src)))"
    by blast
next
  assume "merge_images env bs src v = (Inl raised, v')"
  then show "\<exists>n. fault env n \<and> raised = DBError n"
    by (rule merge_images_Inl)
next
  assume quiet: "\<forall>n. \<not> fault env n"
  obtain r v1 where run: "merge_images env bs src v = (r, v1)"
    by (cases "merge_images env bs src v")
  show "\<exists>summary v'. merge_images env bs src v = (Inr summary, v')"
  proof (cases r)
    case (Inl e)
    with run merge_images_Inl [of env bs src v e v1] quiet show ?thesis by simp
  next
    case (Inr summary)
    with run show ?thesis by simp
  qed
next
  assume "first_failing_condition known row = Some reason"
  then show "images_loop env bs known (row # rows) (summary, existing, payload) w =
      images_loop env bs known rows
        (summary\<lparr>processed := processed summary + 1, skipped := skipped summary + 1\<rparr>,
         existing, payload)
        (w\<lparr>trace := trace w @ [Warning (images_uuid row) reason]\<rparr>)"
    by (rule images_loop_skip)
next
  assume "images_loop env bs known all_rows (summary, existing, payload) w = (Inr (s', ex', pl'), w')"
  from images_loop_accounts [OF this]
  show "\<exists>tr. trace w' = trace w @ tr
            \<and> warnings tr = concat (map (skip_warning known) all_rows)
            \<and> map i_uuid (written_images tr @ pl')
                = map i_uuid payload
                  @ map images_uuid
                      (filter (\<lambda>row. first_failing_condition known row = None) all_rows)
            \<and> processed s' = processed summary + int (length all_rows)
            \<and> skipped s' = skipped summary
                + int (length (filter (\<lambda>row. first_failing_condition known row \<noteq> None)
                                 all_rows))"
    by blast
qed (simp_all add: first_failing_condition_def)

theorem merge_images_skips_first_failing_witness:
  "\<exists>summary v'.
     merge_images example_env 500 example_source (begin_transactions stored_target)
       = (Inr summary, v')
     \<and> processed summary = 4 \<and> skipped summary = 3
     \<and> warnings (trace v')
         = [Warning ''u-2'' NoUploader, Warning ''u-3'' (UploaderMissing 99),
            Warning ''u-4'' (Unclassifiable (UnknownAspectError (Some ''unknown'')))]
     \<and> map i_uuid (written_images (trace v')) = [''u-1'']"
proof -
  let ?v = "begin_transactions stored_target"
  note skips = merge_images_skips_first_failing
      [where env = example_env and bs = 500 and src = example_source and v = ?v]
  have "\<forall>n. \<not> fault example_env n" by (simp add: example_env_def)
  with skips [THEN conjunct2, THEN conjunct2, THEN conjunct1]
  obtain summary v' where
    run: "merge_images example_env 500 example_source ?v = (Inr summary, v')"
    by blast
  have known: "dom (tbl_user (db ?v)) = {1}"
    by (simp add: begin_transactions_def stored_target_def)
  from skips [where result = summary and v' = v', THEN conjunct1, rule_format, OF run]
  have "\<exists>tr. trace v' = trace ?v @ tr
    \<and> warnings tr = concat (map (skip_warning {1}) (images_table example_source))
    \<and> map i_uuid (written_images tr)
       = map images_uuid
           (filter (\<lambda>row. first_failing_condition {1} row = None) (images_table example_source))
    \<and> processed summary = int (length (images_table example_source))
    \<and> skipped summary
       = int (length (filter (\<lambda>row. first_failing_condition {1} row \<noteq> None)
                        (images_table example_source)))"
    unfolding known .
  moreover have "trace ?v = []" by (simp add: begin_transactions_def)
  ultimately have "processed summary = 4 \<and> skipped summary = 3
     \<and> warnings (trace v')
         = [Warning ''u-2'' NoUploader, Warning ''u-3'' (UploaderMissing 99),
            Warning ''u-4'' (Unclassifiable (UnknownAspectError (Some ''unknown'')))]
     \<and> map i_uuid (written_images (trace v')) = [''u-1'']"
    by (clarsimp simp: example_source_def skip_warning_def first_failing_condition_eval)
       (simp add: image_of_nobody_def image_of_stranger_def image_of_unknown_kind_def
          image_of_alice_def)
  with run show ?thesis by (intro exI [of _ summary] exI [of _ v']) simp
qed

lemma example_failing_run:
  "\<exists>after tr0. run_merge failing_env example_config two_images_source empty_target
     = (Inl (DBError 12), after, tr0 @ [Rollback Target, Rollback Source])
     \<and> map i_uuid (written_images tr0) = [''u-1'']"
  by (simp add: fixtures run_defs Let_def derive_aspect_id_eval upsert_def written_images_def)

subsection \<open>The coordinator\<close>

text \<open>
  \<open>run_merge\<close> raises an error exactly when the user merge raises it, or the user
  merge ends and the image merge raises it. It then has rolled back the transaction of
  the target and then that of the source, and the tables of the target hold what they
  held before the run: no row written by either merge is kept.
\<close>

lemma run_merge_error_restores_tables:
  "(fst (run_merge env config src committed) = Inl e \<longleftrightarrow>
      (\<exists>w. merge_users env (batch_size config) src (begin_transactions committed) = (Inl e, w))
      \<or> (\<exists>s w w2. merge_users env (batch_size config) src (begin_transactions committed)
                      = (Inr s, w)
                   \<and> merge_images env (batch_size config) src w = (Inl e, w2)))
   \<and> (run_merge env config src committed = (Inl e, after, tr) \<longrightarrow>
        tbl_user after = tbl_user committed
        \<and> tbl_image after = tbl_image committed
        \<and> tbl_image_aspect after = tbl_image_aspect committed
        \<and> (\<exists>tr0. tr = tr0 @ [Rollback Target, Rollback Source]))"
proof -
  let ?w0 = "begin_transactions committed"
  let ?bs = "batch_size config"
  obtain r1 w1 where m1: "merge_users env ?bs src ?w0 = (r1, w1)"
    by (cases "merge_users env ?bs src ?w0")
  show ?thesis
  proof (cases r1)
    case (Inl e1)
    with m1 have "run_merge env config src committed
        = (Inl e1, rolled_back committed w1, rollback_both w1)"
      by (simp add: run_merge_def)
    with m1 Inl show ?thesis
      by (auto simp: rolled_back_def rollback_both_def)
  next
    case users: (Inr s1)
    obtain r2 w2 where m2: "merge_images env ?bs src w1 = (r2, w2)"
      by (cases "merge_images env ?bs src w1")
    show ?thesis
    proof (cases r2)
      case (Inl e2)
      with m1 users m2 have "run_merge env config src committed
          = (Inl e2, rolled_back committed w2, rollback_both w2)"
        by (simp add: run_merge_def)
      with m1 users m2 Inl show ?thesis
        by (auto simp: rolled_back_def rollback_both_def)
    next
      case (Inr s2)
      with m1 users m2 have "\<exists>r after tr. run_merge env config src committed = (Inr r, after, tr)"
        by (simp add: run_merge_def Let_def)
      with m1 users m2 Inr show ?thesis by auto
    qed
  qed
qed

text \<open>
  C3. On the example users and two images, with a driver that raises on the upsert of
  the second image, \<open>run_merge\<close> raises that error after it has rolled back the target
  and then the source, and the three tables hold what they held before the run: the
  users and the image written before the error are gone. The target is still not what
  it was before the run: the user merge had ended, so \<open>_sync_sequence\<close> had run, and the
  sequence keeps the value that \<open>setval\<close> stored. Before the run the next identifier
  that the sequence hands out is 1, after the aborted run it is 3.
\<close>

theorem aborted_run_moves_sequence:
  "(\<exists>tr0. run_merge failing_env example_config two_images_source empty_target
       = (Inl (DBError 12), after_aborted_run, tr0 @ [Rollback Target, Rollback Source])
      \<and> map i_uuid (written_images tr0) = [''u-1''])
   \<and> tbl_user after_aborted_run = tbl_user empty_target
   \<and> tbl_image after_aborted_run = tbl_image empty_target
   \<and> tbl_image_aspect after_aborted_run = tbl_image_aspect empty_target
   \<and> tbl_user_id_seq empty_target = example_seq
   \<and> tbl_user_id_seq after_aborted_run = example_seq\<lparr>last_value := 2, is_called := True\<rparr>
   \<and> drawn 0 (tbl_user_id_seq empty_target) = Inr 1
   \<and> drawn 0 (tbl_user_id_seq after_aborted_run) = Inr 3
   \<and> after_aborted_run \<noteq> empty_target"
  using example_failing_run
proof (elim exE conjE)
  fix after tr0
  assume run: "run_merge failing_env example_config two_images_source empty_target
       = (Inl (DBError 12), after, tr0 @ [Rollback Target, Rollback Source])"
    and wr: "map i_uuid (written_images tr0) = [''u-1'']"
  from run have after: "after = after_aborted_run" by (simp add: after_aborted_run_def)
  note tables = run_merge_error_restores_tables [THEN conjunct2, rule_format, OF run]
  have seq0: "tbl_user_id_seq empty_target = example_seq" by (simp add: empty_target_def)
  have seq1: "tbl_user_id_seq after_aborted_run
      = example_seq\<lparr>last_value := 2, is_called := True\<rparr>"
    by (simp add: after_aborted_run_def fixtures run_defs Let_def derive_aspect_id_eval
        upsert_def)
  have d0: "drawn 0 (tbl_user_id_seq empty_target) = Inr 1"
    by (simp add: seq0 example_seq_def nextval_def)
  have d1: "drawn 0 (tbl_user_id_seq after_aborted_run) = Inr 3"
    by (simp add: seq1 example_seq_def nextval_def)
  from d0 d1 have differs: "after_aborted_run \<noteq> empty_target" by auto
  have "\<exists>tr0. run_merge failing_env example_config two_images_source empty_target
       = (Inl (DBError 12), after_aborted_run, tr0 @ [Rollback Target, Rollback Source])
      \<and> map i_uuid (written_images tr0) = [''u-1'']"
    using run wr unfolding after by (intro exI [of _ tr0]) simp
  with tables seq0 seq1 d0 d1 differs show ?thesis
    unfolding after by simp
qed

subsection \<open>The user merge\<close>

lemma adapt_user_row_fields:
  assumes "adapt_user_row env row w = (entry, w1)"
  shows "u_id entry = users_id row" "timeless_user entry = user_of row"
    "db w1 = db w" "trace w1 = trace w" "stmts w1 = stmts w" "user_updated_now env entry"
  using assms
  by (auto simp: adapt_user_row_def ensure_datetime_def utcnow_def Let_def
      timeless_user_def user_of_def user_updated_now_def naive_def
      split: prod.splits option.splits)

lemma users_loop_step:
  assumes "adapt_user_row env row w = (entry, w1)"
  shows "users_loop env bs (row # rows) (summary, existing, payload) w =
     (let s1 = (if users_id row \<in> existing
                then summary\<lparr>processed := processed summary + 1, updated := updated summary + 1\<rparr>
                else summary\<lparr>processed := processed summary + 1, inserted := inserted summary + 1\<rparr>);
          ex1 = insert (users_id row) existing
      in if int (length (payload @ [entry])) \<ge> bs
         then io_bind (upsert_users env (payload @ [entry]))
                (\<lambda>_. users_loop env bs rows (s1, ex1, [])) w1
         else users_loop env bs rows (s1, ex1, payload @ [entry]) w1)"
  using assms
  by (auto simp: Let_def io_bind_def insert_absorb split: prod.splits sum.splits)

lemma users_loop_Inr:
  assumes "users_loop env bs rows (summary, existing, payload) w = (Inr (s', ex', pl'), w')"
  shows "\<exists>es. map timeless_user es = map user_of rows
     \<and> fold (upsert u_id tbl_user_do_update) pl' (tbl_user (db w'))
         = fold (upsert u_id tbl_user_do_update) (payload @ es) (tbl_user (db w))
     \<and> tbl_image (db w') = tbl_image (db w)
     \<and> tbl_image_aspect (db w') = tbl_image_aspect (db w)
     \<and> tbl_user_id_seq (db w') = tbl_user_id_seq (db w)
     \<and> processed s' = processed summary + int (length rows)
     \<and> skipped s' = skipped summary
     \<and> inserted s' + updated s' = inserted summary + updated summary + int (length rows)
     \<and> inserted summary \<le> inserted s'
     \<and> (users_id ` set rows \<subseteq> existing \<longrightarrow> inserted s' = inserted summary)
     \<and> list_all (user_updated_now env) es"
  using assms
proof (induction rows arbitrary: summary existing payload w)
  case Nil
  then show ?case by simp
next
  case (Cons row rows)
  obtain entry w1 where adapt: "adapt_user_row env row w = (entry, w1)"
    by (cases "adapt_user_row env row w")
  note f = adapt_user_row_fields [OF adapt]
  let ?s1 = "if users_id row \<in> existing
                then summary\<lparr>processed := processed summary + 1, updated := updated summary + 1\<rparr>
                else summary\<lparr>processed := processed summary + 1, inserted := inserted summary + 1\<rparr>"
  let ?ex1 = "insert (users_id row) existing"
  note step = users_loop_step [OF adapt, of bs rows summary existing payload]
  have s1: "processed ?s1 = processed summary + 1" "skipped ?s1 = skipped summary"
    "inserted ?s1 + updated ?s1 = inserted summary + updated summary + 1"
    "inserted summary \<le> inserted ?s1"
    "users_id row \<in> existing \<Longrightarrow> inserted ?s1 = inserted summary"
    by simp_all
  have "\<exists>es. map timeless_user es = map user_of rows
     \<and> fold (upsert u_id tbl_user_do_update) pl' (tbl_user (db w'))
         = fold (upsert u_id tbl_user_do_update) ((payload @ [entry]) @ es) (tbl_user (db w1))
     \<and> tbl_image (db w') = tbl_image (db w1)
     \<and> tbl_image_aspect (db w') = tbl_image_aspect (db w1)
     \<and> tbl_user_id_seq (db w') = tbl_user_id_seq (db w1)
     \<and> processed s' = processed ?s1 + int (length rows)
     \<and> skipped s' = skipped ?s1
     \<and> inserted s' + updated s' = inserted ?s1 + updated ?s1 + int (length rows)
     \<and> inserted ?s1 \<le> inserted s'
     \<and> (users_id ` set rows \<subseteq> ?ex1 \<longrightarrow> inserted s' = inserted ?s1)
     \<and> list_all (user_updated_now env) es"
  proof (cases "int (length (payload @ [entry])) \<ge> bs")
    case True
    with step Cons.prems have "io_bind (upsert_users env (payload @ [entry]))
                (\<lambda>_. users_loop env bs rows (?s1, ?ex1, [])) w1 = (Inr (s', ex', pl'), w')"
      by (simp add: Let_def)
    then obtain u w2 where up: "upsert_users env (payload @ [entry]) w1 = (Inr u, w2)"
      and run: "users_loop env bs rows (?s1, ?ex1, []) w2 = (Inr (s', ex', pl'), w')"
      unfolding io_bind_Inr by blast
    note w2 = upsert_users_Inr [OF up]
    from Cons.IH [OF run] obtain es where
      "map timeless_user es = map user_of rows"
      "fold (upsert u_id tbl_user_do_update) pl' (tbl_user (db w'))
         = fold (upsert u_id tbl_user_do_update) ([] @ es) (tbl_user (db w2))"
      "tbl_image (db w') = tbl_image (db w2)"
      "tbl_image_aspect (db w') = tbl_image_aspect (db w2)"
      "tbl_user_id_seq (db w') = tbl_user_id_seq (db w2)"
      "processed s' = processed ?s1 + int (length rows)"
      "skipped s' = skipped ?s1"
      "inserted s' + updated s' = inserted ?s1 + updated ?s1 + int (length rows)"
      "inserted ?s1 \<le> inserted s'"
      "users_id ` set rows \<subseteq> ?ex1 \<longrightarrow> inserted s' = inserted ?s1"
      "list_all (user_updated_now env) es"
      by blast
    then show ?thesis
      by (intro exI [of _ es]) (simp add: w2)
  next
    case False
    with step Cons.prems have
      "users_loop env bs rows (?s1, ?ex1, payload @ [entry]) w1 = (Inr (s', ex', pl'), w')"
      by (simp add: Let_def)
    from Cons.IH [OF this] show ?thesis .
  qed
  then obtain es where es:
      "map timeless_user es = map user_of rows"
      "fold (upsert u_id tbl_user_do_update) pl' (tbl_user (db w'))
         = fold (upsert u_id tbl_user_do_update) ((payload @ [entry]) @ es) (tbl_user (db w1))"
      "tbl_image (db w') = tbl_image (db w1)"
      "tbl_image_aspect (db w') = tbl_image_aspect (db w1)"
      "tbl_user_id_seq (db w') = tbl_user_id_seq (db w1)"
      "processed s' = processed ?s1 + int (length rows)"
      "skipped s' = skipped ?s1"
      "inserted s' + updated s' = inserted ?s1 + updated ?s1 + int (length rows)"
      "inserted ?s1 \<le> inserted s'"
      "users_id ` set rows \<subseteq> ?ex1 \<longrightarrow> inserted s' = inserted ?s1"
      "list_all (user_updated_now env) es"
    by blast
  have ins: "inserted s' = inserted summary" if "users_id ` set (row # rows) \<subseteq> existing"
  proof -
    from that have "users_id row \<in> existing" "users_id ` set rows \<subseteq> ?ex1" by auto
    with es(10) s1(5) show ?thesis by simp
  qed
  from es(1-9) es(11) s1 f ins show ?case
    by (intro exI [of _ "entry # es"]) (simp del: fold_append)
qed

lemma merge_users_Inr:
  assumes "merge_users env bs src w = (Inr s, w')"
  shows "\<exists>es. map timeless_user es = map user_of (users_table src)
     \<and> tbl_user (db w') = fold (upsert u_id tbl_user_do_update) es (tbl_user (db w))
     \<and> tbl_image (db w') = tbl_image (db w)
     \<and> tbl_image_aspect (db w') = tbl_image_aspect (db w)
     \<and> setval (coalesce (max_id (tbl_user (db w'))) 0) (tbl_user_id_seq (db w))
         = Inr (tbl_user_id_seq (db w'))
     \<and> processed s = int (length (users_table src))
     \<and> skipped s = 0
     \<and> inserted s + updated s = int (length (users_table src))
     \<and> 0 \<le> inserted s
     \<and> (users_id ` set (users_table src) \<subseteq> dom (tbl_user (db w)) \<longrightarrow> inserted s = 0)
     \<and> list_all (user_updated_now env) es"
proof -
  from assms [unfolded merge_users_def io_bind_Inr] obtain ids w1 u2 w2 st w3 u4 w4 u5 w5
    where 1: "collect_existing_user_ids env w = (Inr ids, w1)"
      and 2: "execute env Source SelectUsers w1 = (Inr u2, w2)"
      and 3: "users_loop env bs (users_table src) (no_counts, ids, []) w2 = (Inr st, w3)"
      and 4: "(case st of (summary, existing_ids, payload) \<Rightarrow> \<lambda>w.
                 io_bind (if payload \<noteq> [] then upsert_users env payload else io_return ())
                   (\<lambda>_. io_bind (sync_sequence env ''tbl_user_id_seq'' ''tbl_user'' ''id'')
                          (\<lambda>_. io_return summary)) w) w3 = (Inr s, w')"
    by blast
  obtain summary ex payload where st: "st = (summary, ex, payload)" by (cases st)
  from 4 [unfolded st] obtain u4 w4 u5 where
    5: "(if payload \<noteq> [] then upsert_users env payload else io_return ()) w3 = (Inr u4, w4)"
    and 6: "sync_sequence env ''tbl_user_id_seq'' ''tbl_user'' ''id'' w4 = (Inr u5, w')"
    and 7: "summary = s"
    by (auto simp: io_bind_Inr io_return_def)
  have d1: "db w1 = db w" and ids: "ids = dom (tbl_user (db w))"
    using collect_existing_user_ids_cases [OF 1] by simp_all
  have d2: "db w2 = db w1"
    by (rule execute_select_writes_valid(2) [OF 2]) simp
  from users_loop_Inr [OF 3 [unfolded st]] obtain es where es:
    "map timeless_user es = map user_of (users_table src)"
    "fold (upsert u_id tbl_user_do_update) payload (tbl_user (db w3))
       = fold (upsert u_id tbl_user_do_update) ([] @ es) (tbl_user (db w2))"
    "tbl_image (db w3) = tbl_image (db w2)"
    "tbl_image_aspect (db w3) = tbl_image_aspect (db w2)"
    "tbl_user_id_seq (db w3) = tbl_user_id_seq (db w2)"
    "processed summary = processed no_counts + int (length (users_table src))"
    "skipped summary = skipped no_counts"
    "inserted summary + updated summary
       = inserted no_counts + updated no_counts + int (length (users_table src))"
    "inserted no_counts \<le> inserted summary"
    "users_id ` set (users_table src) \<subseteq> ids \<longrightarrow> inserted summary = inserted no_counts"
    "list_all (user_updated_now env) es"
    by blast
  have w4: "tbl_user (db w4) = fold (upsert u_id tbl_user_do_update) payload (tbl_user (db w3))
      \<and> tbl_image (db w4) = tbl_image (db w3)
      \<and> tbl_image_aspect (db w4) = tbl_image_aspect (db w3)
      \<and> tbl_user_id_seq (db w4) = tbl_user_id_seq (db w3)"
  proof (cases "payload = []")
    case True
    with 5 show ?thesis by (simp add: io_return_def)
  next
    case False
    with 5 have "upsert_users env payload w3 = (Inr u4, w4)" by simp
    from upsert_users_Inr [OF this] show ?thesis by simp
  qed
  from 6 obtain d where d: "effect (SetvalMax ''tbl_user_id_seq'' ''tbl_user'' ''id'') (db w4) = Inr d"
    "db w' = d"
    by (auto simp: sync_sequence_def execute_Inr)
  from d(1) obtain sq where
    sq: "setval (coalesce (max_id (tbl_user (db w4))) 0) (tbl_user_id_seq (db w4)) = Inr sq"
    "d = (db w4)\<lparr>tbl_user_id_seq := sq\<rparr>"
    by (auto split: sum.splits)
  have w5: "tbl_user (db w') = tbl_user (db w4) \<and> tbl_image (db w') = tbl_image (db w4)
      \<and> tbl_image_aspect (db w') = tbl_image_aspect (db w4)
      \<and> setval (coalesce (max_id (tbl_user (db w4))) 0) (tbl_user_id_seq (db w4))
          = Inr (tbl_user_id_seq (db w'))"
    unfolding d(2) sq(2) using sq(1) by simp
  from es w4 w5 d1 d2 ids 7 show ?thesis
    by (intro exI [of _ es]) (simp add: no_counts_def)
qed

lemma setval_Inr:
  assumes "setval v s = Inr s'"
  shows "last_value s' = v" "is_called s'" "increment_by s' = increment_by s"
    "min_value s' = min_value s" "max_value s' = max_value s"
  using assms by (auto simp: setval_def split: if_splits)

lemma drawn_above:
  "is_called s \<Longrightarrow> 0 < increment_by s \<Longrightarrow> drawn n s = Inr v \<Longrightarrow> last_value s < v"
proof (induction n arbitrary: s)
  case 0
  then show ?case
    by (auto simp: nextval_def Let_def split: if_splits sum.splits)
next
  case (Suc n)
  from Suc.prems obtain v1 s1 where nv: "nextval s = Inr (v1, s1)" and rest: "drawn n s1 = Inr v"
    by (auto split: sum.splits)
  from nv Suc.prems(1,2) have "is_called s1" "0 < increment_by s1" "last_value s < last_value s1"
    by (auto simp: nextval_def Let_def split: if_splits)
  with Suc.IH [OF _ _ rest] show ?case by simp
qed

lemma map_u_id_of_rows:
  assumes "map timeless_user es = map user_of rows"
  shows "map u_id es = map users_id rows"
proof -
  have "map u_id es = map u_id (map timeless_user es)"
    by (simp add: timeless_user_def)
  also have "\<dots> = map users_id rows"
    unfolding assms by (simp add: user_of_def)
  finally show ?thesis .
qed

lemma example_merge_users:
  "\<exists>s w'. merge_users example_env 500 example_source (begin_transactions empty_target)
      = (Inr s, w')
     \<and> dom (tbl_user (db w')) = {1, 2}
     \<and> drawn 0 (tbl_user_id_seq (db w')) = Inr 3"
  by (simp add: fixtures run_defs Let_def upsert_def nextval_def insert_commute)

text \<open>
  C9. When \<open>merge_users\<close> ends on a target with finitely many users, the sequence
  \<open>tbl_user_id_seq\<close> holds the greatest identifier of \<open>tbl_user\<close> as a value handed
  out: every identifier of \<open>tbl_user\<close>, so every migrated one, is at most that value,
  and with a positive increment no value that \<open>nextval\<close> hands out afterwards is an
  identifier of \<open>tbl_user\<close> or of a legacy user.
\<close>

theorem merge_users_advances_sequence:
  assumes "merge_users env bs src w = (Inr s, w')"
    and "finite (dom (tbl_user (db w)))"
  shows "is_called (tbl_user_id_seq (db w'))
     \<and> last_value (tbl_user_id_seq (db w')) = coalesce (max_id (tbl_user (db w'))) 0
     \<and> users_id ` set (users_table src) \<subseteq> dom (tbl_user (db w'))
     \<and> (\<forall>i \<in> dom (tbl_user (db w')). i \<le> last_value (tbl_user_id_seq (db w')))
     \<and> (0 < increment_by (tbl_user_id_seq (db w')) \<longrightarrow>
          (\<forall>n v. drawn n (tbl_user_id_seq (db w')) = Inr v \<longrightarrow>
             v \<notin> dom (tbl_user (db w')) \<and> v \<notin> users_id ` set (users_table src)))"
proof -
  let ?seq = "tbl_user_id_seq (db w')"
  let ?ids = "dom (tbl_user (db w'))"
  from merge_users_Inr [OF assms(1)] obtain es where
    es: "map timeless_user es = map user_of (users_table src)"
    and tbl: "tbl_user (db w') = fold (upsert u_id tbl_user_do_update) es (tbl_user (db w))"
    and sv: "setval (coalesce (max_id (tbl_user (db w'))) 0) (tbl_user_id_seq (db w)) = Inr ?seq"
    by blast
  have "set (map u_id es) = set (map users_id (users_table src))"
    using map_u_id_of_rows [OF es] by simp
  then have ids: "?ids = dom (tbl_user (db w)) \<union> users_id ` set (users_table src)"
    unfolding tbl dom_upsert_fold by simp
  with assms(2) have fin: "finite ?ids" by simp
  note seq = setval_Inr [OF sv]
  have le: "i \<le> last_value ?seq" if "i \<in> ?ids" for i
  proof -
    from that have "?ids \<noteq> {}" by blast
    then have "last_value ?seq = Max ?ids"
      by (simp add: seq(1) max_id_def coalesce_def)
    with fin that show ?thesis by simp
  qed
  have above: "v \<notin> ?ids \<and> v \<notin> users_id ` set (users_table src)"
    if "0 < increment_by ?seq" "drawn n ?seq = Inr v" for n v
  proof -
    from drawn_above [OF seq(2) that] have "last_value ?seq < v" .
    with le have "v \<notin> ?ids" by fastforce
    with ids show ?thesis by blast
  qed
  from seq(1,2) ids le above show ?thesis by blast
qed

theorem merge_users_advances_sequence_witness:
  "\<exists>s w'. merge_users example_env 500 example_source (begin_transactions empty_target)
      = (Inr s, w')
     \<and> dom (tbl_user (db w')) = {1, 2}
     \<and> last_value (tbl_user_id_seq (db w')) = 2
     \<and> drawn 0 (tbl_user_id_seq (db w')) = Inr 3
     \<and> 3 \<notin> dom (tbl_user (db w'))"
  using example_merge_users
proof (elim exE conjE)
  let ?w = "begin_transactions empty_target"
  fix s w'
  assume run: "merge_users example_env 500 example_source ?w = (Inr s, w')"
    and ids: "dom (tbl_user (db w')) = {1, 2}"
    and next_id: "drawn 0 (tbl_user_id_seq (db w')) = Inr 3"
  have fin: "finite (dom (tbl_user (db ?w)))"
    by (simp add: begin_transactions_def empty_target_def)
  note spec = merge_users_advances_sequence [OF run fin]
  from spec [THEN conjunct2, THEN conjunct1] ids
  have last: "last_value (tbl_user_id_seq (db w')) = 2"
    by (simp add: max_id_def coalesce_def)
  from merge_users_Inr [OF run]
  have "setval (coalesce (max_id (tbl_user (db w'))) 0) (tbl_user_id_seq (db ?w))
         = Inr (tbl_user_id_seq (db w'))"
    by (elim exE conjE)
  from setval_Inr(3) [OF this] have inc: "0 < increment_by (tbl_user_id_seq (db w'))"
    by (simp add: begin_transactions_def empty_target_def example_seq_def)
  from spec [THEN conjunct2, THEN conjunct2, THEN conjunct2, THEN conjunct2, rule_format,
      OF inc next_id]
  have "3 \<notin> dom (tbl_user (db w'))" by simp
  with run ids last next_id show ?thesis
    by (intro exI [of _ s] exI [of _ w']) simp
qed

subsection \<open>Runs that end\<close>

lemma adapt_image_row_timeless:
  assumes "adapt_image_row env row aspect w = (entry, w1)"
    and "derive_aspect_id (images_kind row) = Inr aspect"
  shows "timeless_image entry = migrated_image row"
  using assms
  by (auto simp: adapt_image_row_def ensure_datetime_def utcnow_def Let_def
      timeless_image_def migrated_image_def image_of_def split: prod.splits option.splits)

lemma images_loop_Inr:
  assumes "images_loop env bs known rows (summary, existing, payload) w = (Inr (s', ex', pl'), w')"
  shows "\<exists>es. map timeless_image es
         = map migrated_image (filter (\<lambda>row. first_failing_condition known row = None) rows)
     \<and> fold (upsert i_uuid tbl_image_do_update) pl' (tbl_image (db w'))
         = fold (upsert i_uuid tbl_image_do_update) (payload @ es) (tbl_image (db w))
     \<and> tbl_user (db w') = tbl_user (db w)
     \<and> tbl_image_aspect (db w') = tbl_image_aspect (db w)
     \<and> tbl_user_id_seq (db w') = tbl_user_id_seq (db w)
     \<and> inserted summary \<le> inserted s'
     \<and> (images_uuid ` set (filter (\<lambda>row. first_failing_condition known row = None) rows)
           \<subseteq> existing \<longrightarrow> inserted s' = inserted summary)
     \<and> list_all (image_updated_now env) es"
  using assms
proof (induction rows arbitrary: summary existing payload w)
  case Nil
  then show ?case by simp
next
  case (Cons row rows)
  let ?ok = "\<lambda>row. first_failing_condition known row = None"
  show ?case
  proof (cases "first_failing_condition known row")
    case (Some reason)
    let ?w1 = "w\<lparr>trace := trace w @ [Warning (images_uuid row) reason]\<rparr>"
    from Cons.prems have run: "images_loop env bs known rows
       (summary\<lparr>processed := processed summary + 1, skipped := skipped summary + 1\<rparr>,
        existing, payload) ?w1 = (Inr (s', ex', pl'), w')"
      by (simp only: images_loop_skip [OF Some])
    from Cons.IH [OF run] Some show ?thesis by simp
  next
    case None
    then obtain uid aspect where row: "images_uploaded_by row = Some uid" "uid \<in> known"
      "derive_aspect_id (images_kind row) = Inr aspect"
      unfolding first_failing_condition_None by blast
    obtain entry w1 where adapt: "adapt_image_row env row aspect w = (entry, w1)"
      by (cases "adapt_image_row env row aspect w")
    note f = adapt_image_row_fields [OF adapt]
    note t = adapt_image_row_timeless [OF adapt row(3)]
    let ?s1 = "if images_uuid row \<in> existing
                then summary\<lparr>processed := processed summary + 1, updated := updated summary + 1\<rparr>
                else summary\<lparr>processed := processed summary + 1, inserted := inserted summary + 1\<rparr>"
    let ?ex1 = "insert (images_uuid row) existing"
    note step = images_loop_accept [OF row adapt, of bs rows summary existing payload]
    have s1: "inserted summary \<le> inserted ?s1"
      "images_uuid row \<in> existing \<Longrightarrow> inserted ?s1 = inserted summary"
      by simp_all
    have "\<exists>es. map timeless_image es = map migrated_image (filter ?ok rows)
     \<and> fold (upsert i_uuid tbl_image_do_update) pl' (tbl_image (db w'))
         = fold (upsert i_uuid tbl_image_do_update) ((payload @ [entry]) @ es) (tbl_image (db w1))
     \<and> tbl_user (db w') = tbl_user (db w1)
     \<and> tbl_image_aspect (db w') = tbl_image_aspect (db w1)
     \<and> tbl_user_id_seq (db w') = tbl_user_id_seq (db w1)
     \<and> inserted ?s1 \<le> inserted s'
     \<and> (images_uuid ` set (filter ?ok rows) \<subseteq> ?ex1 \<longrightarrow> inserted s' = inserted ?s1)
     \<and> list_all (image_updated_now env) es"
    proof (cases "int (length (payload @ [entry])) \<ge> bs")
      case True
      with step Cons.prems have "io_bind (upsert_images env (payload @ [entry]))
                (\<lambda>_. images_loop env bs known rows (?s1, ?ex1, [])) w1 = (Inr (s', ex', pl'), w')"
        by (simp add: Let_def)
      then obtain u w2 where up: "upsert_images env (payload @ [entry]) w1 = (Inr u, w2)"
        and run: "images_loop env bs known rows (?s1, ?ex1, []) w2 = (Inr (s', ex', pl'), w')"
        unfolding io_bind_Inr by blast
      note w2 = upsert_images_Inr [OF up]
      from Cons.IH [OF run] obtain es where
        "map timeless_image es = map migrated_image (filter ?ok rows)"
        "fold (upsert i_uuid tbl_image_do_update) pl' (tbl_image (db w'))
           = fold (upsert i_uuid tbl_image_do_update) ([] @ es) (tbl_image (db w2))"
        "tbl_user (db w') = tbl_user (db w2)"
        "tbl_image_aspect (db w') = tbl_image_aspect (db w2)"
        "tbl_user_id_seq (db w') = tbl_user_id_seq (db w2)"
        "inserted ?s1 \<le> inserted s'"
        "images_uuid ` set (filter ?ok rows) \<subseteq> ?ex1 \<longrightarrow> inserted s' = inserted ?s1"
        "list_all (image_updated_now env) es"
        by blast
      then show ?thesis
        by (intro exI [of _ es]) (simp add: w2)
    next
      case False
      with step Cons.prems have
        "images_loop env bs known rows (?s1, ?ex1, payload @ [entry]) w1 = (Inr (s', ex', pl'), w')"
        by (simp add: Let_def)
      from Cons.IH [OF this] show ?thesis .
    qed
    then obtain es where es:
        "map timeless_image es = map migrated_image (filter ?ok rows)"
        "fold (upsert i_uuid tbl_image_do_update) pl' (tbl_image (db w'))
           = fold (upsert i_uuid tbl_image_do_update) ((payload @ [entry]) @ es) (tbl_image (db w1))"
        "tbl_user (db w') = tbl_user (db w1)"
        "tbl_image_aspect (db w') = tbl_image_aspect (db w1)"
        "tbl_user_id_seq (db w') = tbl_user_id_seq (db w1)"
        "inserted ?s1 \<le> inserted s'"
        "images_uuid ` set (filter ?ok rows) \<subseteq> ?ex1 \<longrightarrow> inserted s' = inserted ?s1"
        "list_all (image_updated_now env) es"
      by blast
    have ins: "inserted s' = inserted summary"
      if "images_uuid ` set (filter ?ok (row # rows)) \<subseteq> existing"
    proof -
      from that None have "images_uuid row \<in> existing"
        "images_uuid ` set (filter ?ok rows) \<subseteq> ?ex1" by auto
      with es(7) s1(2) show ?thesis by simp
    qed
    from es(1-6) es(8) s1(1) f t ins None show ?thesis
      by (intro exI [of _ "entry # es"]) (simp del: fold_append)
  qed
qed

lemma executemany_insert_aspects_Inr:
  "executemany env Target (map InsertAspect rows) w = (Inr u, w') \<Longrightarrow>
     tbl_user (db w') = tbl_user (db w) \<and> tbl_image (db w') = tbl_image (db w)
     \<and> tbl_user_id_seq (db w') = tbl_user_id_seq (db w)"
proof (induction rows arbitrary: w)
  case Nil
  then show ?case by simp
next
  case (Cons row rows)
  from Cons.prems obtain w1 where
    1: "execute env Target (InsertAspect row) w = (Inr (), w1)" and
    2: "executemany env Target (map InsertAspect rows) w1 = (Inr u, w')"
    by (auto split: prod.splits sum.splits)
  from 1 have "tbl_user (db w1) = tbl_user (db w) \<and> tbl_image (db w1) = tbl_image (db w)
     \<and> tbl_user_id_seq (db w1) = tbl_user_id_seq (db w)"
    by (auto simp: execute_Inr)
  with Cons.IH [OF 2] show ?case by simp
qed

lemma ensure_required_aspects_Inr:
  assumes "ensure_required_aspects env w = (Inr u, w')"
  shows "tbl_user (db w') = tbl_user (db w)" "tbl_image (db w') = tbl_image (db w)"
    "tbl_user_id_seq (db w') = tbl_user_id_seq (db w)"
    "{''card-background'', ''sega-passname''} \<subseteq> dom (tbl_image_aspect (db w'))"
    "{''card-background'', ''sega-passname''} \<subseteq> dom (tbl_image_aspect (db w))
       \<Longrightarrow> tbl_image_aspect (db w') = tbl_image_aspect (db w)"
proof -
  let ?missing = "\<lambda>w. map snd (filter (\<lambda>(key, data). key \<notin> dom (tbl_image_aspect (db w))
      \<inter> {''card-background'', ''sega-passname''}) required)"
  from assms obtain x w1 where
    1: "execute env Target SelectAspects w = (Inr x, w1)"
    and 2: "(if ?missing w1 = [] then (Inr (), w1)
           else executemany env Target (map InsertAspect (?missing w1)) w1) = (Inr u, w')"
    by (auto simp: ensure_required_aspects_def Let_def io_bind_Inr)
  have d1: "db w1 = db w"
    by (rule execute_select_writes_valid(2) [OF 1]) simp
  have frame: "tbl_user (db w') = tbl_user (db w1) \<and> tbl_image (db w') = tbl_image (db w1)
     \<and> tbl_user_id_seq (db w') = tbl_user_id_seq (db w1)"
  proof (cases "?missing w1 = []")
    case True
    with 2 show ?thesis by simp
  next
    case False
    from 2 have "executemany env Target (map InsertAspect (?missing w1)) w1 = (Inr u, w')"
      unfolding if_not_P [OF False] .
    then show ?thesis by (rule executemany_insert_aspects_Inr)
  qed
  with d1 show "tbl_user (db w') = tbl_user (db w)" "tbl_image (db w') = tbl_image (db w)"
    "tbl_user_id_seq (db w') = tbl_user_id_seq (db w)" by simp_all
  show "{''card-background'', ''sega-passname''} \<subseteq> dom (tbl_image_aspect (db w'))"
    by (rule ensure_required_aspects_writes_valid(2) [OF assms refl])
  show "tbl_image_aspect (db w') = tbl_image_aspect (db w)"
    if "{''card-background'', ''sega-passname''} \<subseteq> dom (tbl_image_aspect (db w))"
  proof -
    from that d1 have "?missing w1 = []" by (auto simp: required_def)
    with 2 d1 show ?thesis by simp
  qed
qed

lemma merge_images_Inr:
  assumes "merge_images env bs src w = (Inr s, w')"
  shows "\<exists>es. map timeless_image es
         = map migrated_image
             (filter (\<lambda>row. first_failing_condition (dom (tbl_user (db w))) row = None)
                (images_table src))
     \<and> tbl_image (db w') = fold (upsert i_uuid tbl_image_do_update) es (tbl_image (db w))
     \<and> tbl_user (db w') = tbl_user (db w)
     \<and> tbl_user_id_seq (db w') = tbl_user_id_seq (db w)
     \<and> {''card-background'', ''sega-passname''} \<subseteq> dom (tbl_image_aspect (db w'))
     \<and> ({''card-background'', ''sega-passname''} \<subseteq> dom (tbl_image_aspect (db w))
          \<longrightarrow> tbl_image_aspect (db w') = tbl_image_aspect (db w))
     \<and> processed s = int (length (images_table src))
     \<and> skipped s = int (length (filter
           (\<lambda>row. first_failing_condition (dom (tbl_user (db w))) row \<noteq> None) (images_table src)))
     \<and> inserted s + updated s = int (length (filter
           (\<lambda>row. first_failing_condition (dom (tbl_user (db w))) row = None) (images_table src)))
     \<and> 0 \<le> inserted s
     \<and> (images_uuid ` set (filter
           (\<lambda>row. first_failing_condition (dom (tbl_user (db w))) row = None) (images_table src))
          \<subseteq> dom (tbl_image (db w)) \<longrightarrow> inserted s = 0)
     \<and> list_all (image_updated_now env) es"
proof -
  let ?K = "dom (tbl_user (db w))"
  let ?ok = "\<lambda>row. first_failing_condition ?K row = None"
  from assms [unfolded merge_images_def io_bind_Inr] obtain u1 w1 uuids w2 known w3 u4 w4 st w5
    where 1: "ensure_required_aspects env w = (Inr u1, w1)"
      and 2: "collect_existing_image_uuids env w1 = (Inr uuids, w2)"
      and 3: "collect_existing_user_ids env w2 = (Inr known, w3)"
      and 4: "execute env Source SelectImages w3 = (Inr u4, w4)"
      and 5: "images_loop env bs known (images_table src) (no_counts, uuids, []) w4 = (Inr st, w5)"
      and 6: "(case st of (summary, existing_uuids, payload) \<Rightarrow> \<lambda>w.
                 io_bind (if payload \<noteq> [] then upsert_images env payload else io_return ())
                   (\<lambda>_. io_return summary) w) w5 = (Inr s, w')"
    by blast
  obtain summary ex payload where st: "st = (summary, ex, payload)" by (cases st)
  from 6 [unfolded st] obtain u6 where
    7: "(if payload \<noteq> [] then upsert_images env payload else io_return ()) w5 = (Inr u6, w')"
    and 8: "summary = s"
    by (auto simp: io_bind_Inr io_return_def)
  note e1 = ensure_required_aspects_Inr [OF 1]
  have d2: "db w2 = db w1" and uuids: "uuids = dom (tbl_image (db w1))"
    using collect_existing_image_uuids_cases [OF 2] by simp_all
  have d3: "db w3 = db w2" and known: "known = dom (tbl_user (db w2))"
    using collect_existing_user_ids_cases [OF 3] by simp_all
  have d4: "db w4 = db w3"
    by (rule execute_select_writes_valid(2) [OF 4]) simp
  have K: "known = ?K" using known d2 e1(1) by simp
  from images_loop_Inr [OF 5 [unfolded st K]] obtain es where es:
    "map timeless_image es = map migrated_image (filter ?ok (images_table src))"
    "fold (upsert i_uuid tbl_image_do_update) payload (tbl_image (db w5))
       = fold (upsert i_uuid tbl_image_do_update) ([] @ es) (tbl_image (db w4))"
    "tbl_user (db w5) = tbl_user (db w4)"
    "tbl_image_aspect (db w5) = tbl_image_aspect (db w4)"
    "tbl_user_id_seq (db w5) = tbl_user_id_seq (db w4)"
    "inserted no_counts \<le> inserted summary"
    "images_uuid ` set (filter ?ok (images_table src)) \<subseteq> uuids
       \<longrightarrow> inserted summary = inserted no_counts"
    "list_all (image_updated_now env) es"
    by blast
  from images_loop_accounts [OF 5 [unfolded st K]] have acc:
    "processed summary = processed no_counts + int (length (images_table src))"
    "skipped summary = skipped no_counts
       + int (length (filter (\<lambda>row. first_failing_condition ?K row \<noteq> None) (images_table src)))"
    "inserted summary + updated summary = inserted no_counts + updated no_counts
       + int (length (filter ?ok (images_table src)))"
    by blast+
  have w': "tbl_image (db w') = fold (upsert i_uuid tbl_image_do_update) payload (tbl_image (db w5))
      \<and> tbl_user (db w') = tbl_user (db w5)
      \<and> tbl_image_aspect (db w') = tbl_image_aspect (db w5)
      \<and> tbl_user_id_seq (db w') = tbl_user_id_seq (db w5)"
  proof (cases "payload = []")
    case True
    with 7 show ?thesis by (simp add: io_return_def)
  next
    case False
    with 7 have "upsert_images env payload w5 = (Inr u6, w')" by simp
    from upsert_images_Inr [OF this] show ?thesis by simp
  qed
  from es acc w' e1 d2 d3 d4 uuids 8 show ?thesis
    by (intro exI [of _ es]) (simp add: no_counts_def)
qed

subsection \<open>Upserting the same rows again\<close>

lemma filter_map_same:
  assumes "map f ys = map f xs" and "\<And>x y. f y = f x \<Longrightarrow> P y = P x"
  shows "map f (filter P ys) = map f (filter P xs)"
  using assms(1)
proof (induction xs arbitrary: ys)
  case Nil
  then show ?case by simp
next
  case (Cons x xs)
  then obtain y ys' where ys: "ys = y # ys'" "f y = f x" "map f ys' = map f xs"
    by (cases ys) auto
  from assms(2) [OF ys(2)] Cons.IH [OF ys(3)] ys show ?case by simp
qed

lemma upsert_twice_same:
  assumes absorb: "\<And>a b c. upd (upd a b) c = upd a c"
    and agrees_upd: "\<And>a e. agrees (upd a e) e"
    and agrees_refl: "\<And>e. agrees e e"
    and forget_upd: "\<And>x e1 e2. agrees x e1 \<Longrightarrow> core e2 = core e1 \<Longrightarrow> forget (upd x e2) = forget x"
    and key_core: "\<And>e1 e2. core e2 = core e1 \<Longrightarrow> key e2 = key e1"
    and same: "map core es2 = map core es1"
  shows "map_option forget (fold (upsert key upd) es2 (fold (upsert key upd) es1 m) k)
     = map_option forget (fold (upsert key upd) es1 m k)"
proof -
  let ?M = "fold (upsert key upd) es1 m"
  let ?fs1 = "filter (\<lambda>e. key e = k) es1"
  let ?fs2 = "filter (\<lambda>e. key e = k) es2"
  have fs: "map core ?fs2 = map core ?fs1"
    by (rule filter_map_same [OF same]) (drule key_core, simp)
  show ?thesis
  proof (cases "?fs1 = []")
    case True
    with fs have "?fs2 = []" by simp
    then show ?thesis
      by (simp add: upsert_fold [of key upd es2] Let_def split: option.split)
  next
    case False
    with fs have ne2: "?fs2 \<noteq> []" by auto
    from fs False ne2 have last: "core (last ?fs2) = core (last ?fs1)"
      using last_map [of ?fs2 core] last_map [of ?fs1 core] by simp
    have "\<exists>x. ?M k = Some x \<and> agrees x (last ?fs1)"
    proof (cases "m k")
      case None
      from False obtain f fs' where f: "?fs1 = f # fs'" by (cases ?fs1) auto
      show ?thesis
      proof (cases "fs' = []")
        case True
        with None f show ?thesis
          by (simp add: upsert_fold [of key upd es1] Let_def agrees_refl)
      next
        case False
        with None f foldl_absorb [of upd fs' f, OF absorb False] show ?thesis
          by (simp add: upsert_fold [of key upd es1] Let_def agrees_upd)
      qed
    next
      case (Some old)
      with foldl_absorb [of upd ?fs1 old, OF absorb False] show ?thesis
        by (simp add: upsert_fold [of key upd es1] Let_def agrees_upd)
    qed
    then obtain x where x: "?M k = Some x" "agrees x (last ?fs1)" by blast
    have "fold (upsert key upd) es2 ?M k = Some (upd x (last ?fs2))"
      using x(1) foldl_absorb [of upd ?fs2 x, OF absorb ne2]
      by (simp add: upsert_fold [of key upd es2] Let_def)
    with x forget_upd [OF x(2) last] show ?thesis by simp
  qed
qed

lemma timeless_user_fields:
  assumes "timeless_user e2 = timeless_user e1"
  shows "u_id e2 = u_id e1" "u_username e2 = u_username e1" "u_password e2 = u_password e1"
    "u_phone e2 = u_phone e1" "u_privileges e2 = u_privileges e1"
proof -
  have "u_id (timeless_user e2) = u_id (timeless_user e1)"
    "u_username (timeless_user e2) = u_username (timeless_user e1)"
    "u_password (timeless_user e2) = u_password (timeless_user e1)"
    "u_phone (timeless_user e2) = u_phone (timeless_user e1)"
    "u_privileges (timeless_user e2) = u_privileges (timeless_user e1)"
    by (simp_all only: assms)
  then show "u_id e2 = u_id e1" "u_username e2 = u_username e1" "u_password e2 = u_password e1"
    "u_phone e2 = u_phone e1" "u_privileges e2 = u_privileges e1"
    by (simp_all add: timeless_user_def)
qed

lemma timeless_image_fields:
  assumes "timeless_image e2 = timeless_image e1"
  shows "i_uuid e2 = i_uuid e1" "i_user_id e2 = i_user_id e1" "i_aspect_id e2 = i_aspect_id e1"
    "i_name e2 = i_name e1" "i_description e2 = i_description e1"
    "i_visibility e2 = i_visibility e1" "i_labels e2 = i_labels e1"
    "i_file_name e2 = i_file_name e1" "i_metadata_id e2 = i_metadata_id e1"
proof -
  have "i_uuid (timeless_image e2) = i_uuid (timeless_image e1)"
    "i_user_id (timeless_image e2) = i_user_id (timeless_image e1)"
    "i_aspect_id (timeless_image e2) = i_aspect_id (timeless_image e1)"
    "i_name (timeless_image e2) = i_name (timeless_image e1)"
    "i_description (timeless_image e2) = i_description (timeless_image e1)"
    "i_visibility (timeless_image e2) = i_visibility (timeless_image e1)"
    "i_labels (timeless_image e2) = i_labels (timeless_image e1)"
    "i_file_name (timeless_image e2) = i_file_name (timeless_image e1)"
    "i_metadata_id (timeless_image e2) = i_metadata_id (timeless_image e1)"
    by (simp_all only: assms)
  then show "i_uuid e2 = i_uuid e1" "i_user_id e2 = i_user_id e1" "i_aspect_id e2 = i_aspect_id e1"
    "i_name e2 = i_name e1" "i_description e2 = i_description e1"
    "i_visibility e2 = i_visibility e1" "i_labels e2 = i_labels e1"
    "i_file_name e2 = i_file_name e1" "i_metadata_id e2 = i_metadata_id e1"
    by (simp_all add: timeless_image_def)
qed

lemma users_upserted_twice:
  assumes "map timeless_user es2 = map timeless_user es1"
  shows "map_option without_updated_at_user \<circ>
           fold (upsert u_id tbl_user_do_update) es2 (fold (upsert u_id tbl_user_do_update) es1 m)
     = map_option without_updated_at_user \<circ> fold (upsert u_id tbl_user_do_update) es1 m"
proof (rule ext, simp only: comp_apply)
  fix k
  show "map_option without_updated_at_user
          (fold (upsert u_id tbl_user_do_update) es2
             (fold (upsert u_id tbl_user_do_update) es1 m) k)
      = map_option without_updated_at_user (fold (upsert u_id tbl_user_do_update) es1 m k)"
  proof (rule upsert_twice_same
      [where core = timeless_user
         and agrees = "\<lambda>x e. u_username x = u_username e \<and> u_password x = u_password e
                          \<and> u_phone x = u_phone e \<and> u_privileges x = u_privileges e",
       OF tbl_user_do_update_absorb _ _ _ _ assms])
    fix x e1 e2 :: user_entry
    assume ag: "u_username x = u_username e1 \<and> u_password x = u_password e1
          \<and> u_phone x = u_phone e1 \<and> u_privileges x = u_privileges e1"
      and t: "timeless_user e2 = timeless_user e1"
    from timeless_user_fields [OF t] ag
    show "without_updated_at_user (tbl_user_do_update x e2) = without_updated_at_user x"
      by (simp add: without_updated_at_user_def tbl_user_do_update_def)
  next
    show "\<And>e1 e2. timeless_user e2 = timeless_user e1 \<Longrightarrow> u_id e2 = u_id e1"
      by (rule timeless_user_fields)
  qed (simp_all add: tbl_user_do_update_def)
qed

lemma images_upserted_twice:
  assumes "map timeless_image es2 = map timeless_image es1"
  shows "map_option without_updated_at_image \<circ>
           fold (upsert i_uuid tbl_image_do_update) es2
             (fold (upsert i_uuid tbl_image_do_update) es1 m)
     = map_option without_updated_at_image \<circ> fold (upsert i_uuid tbl_image_do_update) es1 m"
proof (rule ext, simp only: comp_apply)
  fix k
  show "map_option without_updated_at_image
          (fold (upsert i_uuid tbl_image_do_update) es2
             (fold (upsert i_uuid tbl_image_do_update) es1 m) k)
      = map_option without_updated_at_image (fold (upsert i_uuid tbl_image_do_update) es1 m k)"
  proof (rule upsert_twice_same
      [where core = timeless_image
         and agrees = "\<lambda>x e. i_user_id x = i_user_id e \<and> i_aspect_id x = i_aspect_id e
                          \<and> i_name x = i_name e \<and> i_description x = i_description e
                          \<and> i_visibility x = i_visibility e \<and> i_labels x = i_labels e
                          \<and> i_file_name x = i_file_name e \<and> i_metadata_id x = i_metadata_id e",
       OF tbl_image_do_update_absorb _ _ _ _ assms])
    fix x e1 e2 :: image_entry
    assume ag: "i_user_id x = i_user_id e1 \<and> i_aspect_id x = i_aspect_id e1
                          \<and> i_name x = i_name e1 \<and> i_description x = i_description e1
                          \<and> i_visibility x = i_visibility e1 \<and> i_labels x = i_labels e1
                          \<and> i_file_name x = i_file_name e1 \<and> i_metadata_id x = i_metadata_id e1"
      and t: "timeless_image e2 = timeless_image e1"
    from timeless_image_fields [OF t] ag
    show "without_updated_at_image (tbl_image_do_update x e2) = without_updated_at_image x"
      by (simp add: without_updated_at_image_def tbl_image_do_update_def)
  next
    show "\<And>e1 e2. timeless_image e2 = timeless_image e1 \<Longrightarrow> i_uuid e2 = i_uuid e1"
      by (rule timeless_image_fields)
  qed (simp_all add: tbl_image_do_update_def)
qed

lemma upsert_twice_point:
  assumes absorb: "\<And>a b c. upd (upd a b) c = upd a c"
    and agrees_upd: "\<And>a e. agrees (upd a e) e"
    and agrees_refl: "\<And>e. agrees e e"
    and stamp_upd: "\<And>x e1 e2. agrees x e1 \<Longrightarrow> core e2 = core e1 \<Longrightarrow> upd x e2 = stamp x e2"
    and key_core: "\<And>e1 e2. core e2 = core e1 \<Longrightarrow> key e2 = key e1"
    and same: "map core es2 = map core es1"
  shows "if filter (\<lambda>e. key e = k) es2 = []
     then fold (upsert key upd) es2 (fold (upsert key upd) es1 m) k
            = fold (upsert key upd) es1 m k
     else \<exists>x. fold (upsert key upd) es1 m k = Some x
            \<and> fold (upsert key upd) es2 (fold (upsert key upd) es1 m) k
                = Some (stamp x (last (filter (\<lambda>e. key e = k) es2)))"
proof -
  let ?M = "fold (upsert key upd) es1 m"
  let ?fs1 = "filter (\<lambda>e. key e = k) es1"
  let ?fs2 = "filter (\<lambda>e. key e = k) es2"
  have fs: "map core ?fs2 = map core ?fs1"
    by (rule filter_map_same [OF same]) (drule key_core, simp)
  show ?thesis
  proof (cases "?fs2 = []")
    case True
    then show ?thesis
      by (simp add: upsert_fold [of key upd es2] Let_def split: option.split)
  next
    case ne2: False
    with fs have False: "?fs1 \<noteq> []" by auto
    from fs False ne2 have last: "core (last ?fs2) = core (last ?fs1)"
      using last_map [of ?fs2 core] last_map [of ?fs1 core] by simp
    have "\<exists>x. ?M k = Some x \<and> agrees x (last ?fs1)"
    proof (cases "m k")
      case None
      from False obtain f fs' where f: "?fs1 = f # fs'" by (cases ?fs1) auto
      show ?thesis
      proof (cases "fs' = []")
        case True
        with None f show ?thesis
          by (simp add: upsert_fold [of key upd es1] Let_def agrees_refl)
      next
        case False
        with None f foldl_absorb [of upd fs' f, OF absorb False] show ?thesis
          by (simp add: upsert_fold [of key upd es1] Let_def agrees_upd)
      qed
    next
      case (Some old)
      with foldl_absorb [of upd ?fs1 old, OF absorb False] show ?thesis
        by (simp add: upsert_fold [of key upd es1] Let_def agrees_upd)
    qed
    then obtain x where x: "?M k = Some x" "agrees x (last ?fs1)" by blast
    have "fold (upsert key upd) es2 ?M k = Some (upd x (last ?fs2))"
      using x(1) foldl_absorb [of upd ?fs2 x, OF absorb ne2]
      by (simp add: upsert_fold [of key upd es2] Let_def)
    with x stamp_upd [OF x(2) last] ne2 show ?thesis by simp
  qed
qed

lemma users_upserted_again:
  assumes "map timeless_user es2 = map timeless_user es1"
  shows "if filter (\<lambda>e. u_id e = k) es2 = []
     then fold (upsert u_id tbl_user_do_update) es2 (fold (upsert u_id tbl_user_do_update) es1 m) k
            = fold (upsert u_id tbl_user_do_update) es1 m k
     else \<exists>x. fold (upsert u_id tbl_user_do_update) es1 m k = Some x
            \<and> fold (upsert u_id tbl_user_do_update) es2
                  (fold (upsert u_id tbl_user_do_update) es1 m) k
                = Some (x\<lparr>u_updated_at := u_updated_at (last (filter (\<lambda>e. u_id e = k) es2))\<rparr>)"
proof (rule upsert_twice_point
      [where core = timeless_user and stamp = "\<lambda>x e. x\<lparr>u_updated_at := u_updated_at e\<rparr>"
         and agrees = "\<lambda>x e. u_username x = u_username e \<and> u_password x = u_password e
                          \<and> u_phone x = u_phone e \<and> u_privileges x = u_privileges e",
       OF tbl_user_do_update_absorb _ _ _ _ assms])
  fix x e1 e2 :: user_entry
  assume ag: "u_username x = u_username e1 \<and> u_password x = u_password e1
          \<and> u_phone x = u_phone e1 \<and> u_privileges x = u_privileges e1"
    and t: "timeless_user e2 = timeless_user e1"
  from timeless_user_fields [OF t] ag
  show "tbl_user_do_update x e2 = x\<lparr>u_updated_at := u_updated_at e2\<rparr>"
    by (simp add: tbl_user_do_update_def)
next
  show "\<And>e1 e2. timeless_user e2 = timeless_user e1 \<Longrightarrow> u_id e2 = u_id e1"
    by (rule timeless_user_fields)
qed (simp_all add: tbl_user_do_update_def)

lemma images_upserted_again:
  assumes "map timeless_image es2 = map timeless_image es1"
  shows "if filter (\<lambda>e. i_uuid e = k) es2 = []
     then fold (upsert i_uuid tbl_image_do_update) es2
            (fold (upsert i_uuid tbl_image_do_update) es1 m) k
            = fold (upsert i_uuid tbl_image_do_update) es1 m k
     else \<exists>x. fold (upsert i_uuid tbl_image_do_update) es1 m k = Some x
            \<and> fold (upsert i_uuid tbl_image_do_update) es2
                  (fold (upsert i_uuid tbl_image_do_update) es1 m) k
                = Some (x\<lparr>i_updated_at := i_updated_at (last (filter (\<lambda>e. i_uuid e = k) es2))\<rparr>)"
proof (rule upsert_twice_point
      [where core = timeless_image and stamp = "\<lambda>x e. x\<lparr>i_updated_at := i_updated_at e\<rparr>"
         and agrees = "\<lambda>x e. i_user_id x = i_user_id e \<and> i_aspect_id x = i_aspect_id e
                          \<and> i_name x = i_name e \<and> i_description x = i_description e
                          \<and> i_visibility x = i_visibility e \<and> i_labels x = i_labels e
                          \<and> i_file_name x = i_file_name e \<and> i_metadata_id x = i_metadata_id e",
       OF tbl_image_do_update_absorb _ _ _ _ assms])
  fix x e1 e2 :: image_entry
  assume ag: "i_user_id x = i_user_id e1 \<and> i_aspect_id x = i_aspect_id e1
                          \<and> i_name x = i_name e1 \<and> i_description x = i_description e1
                          \<and> i_visibility x = i_visibility e1 \<and> i_labels x = i_labels e1
                          \<and> i_file_name x = i_file_name e1 \<and> i_metadata_id x = i_metadata_id e1"
    and t: "timeless_image e2 = timeless_image e1"
  from timeless_image_fields [OF t] ag
  show "tbl_image_do_update x e2 = x\<lparr>i_updated_at := i_updated_at e2\<rparr>"
    by (simp add: tbl_image_do_update_def)
next
  show "\<And>e1 e2. timeless_image e2 = timeless_image e1 \<Longrightarrow> i_uuid e2 = i_uuid e1"
    by (rule timeless_image_fields)
qed (simp_all add: tbl_image_do_update_def)

lemma rewritten_by_clock:
  assumes "list_all P es" and "filter (\<lambda>e. key e = k) es \<noteq> []"
  shows "P (last (filter (\<lambda>e. key e = k) es))"
proof -
  from assms(2) have "last (filter (\<lambda>e. key e = k) es) \<in> set (filter (\<lambda>e. key e = k) es)"
    by (rule last_in_set)
  with assms(1) show ?thesis by (simp add: list_all_iff)
qed

lemma filter_key_empty:
  "filter (\<lambda>e. key e = k) es = [] \<longleftrightarrow> k \<notin> set (map key es)"
  by (auto simp: filter_empty_conv)

lemma run_merge_Inr:
  assumes "run_merge env config src committed = (Inr r, after, tr)"
  shows "\<exists>w1 w2.
     merge_users env (batch_size config) src (begin_transactions committed) = (Inr (users r), w1)
     \<and> merge_images env (batch_size config) src w1 = (Inr (images r), w2)
     \<and> after = (if dry_run config then rolled_back committed w2 else db w2)"
proof -
  obtain r1 w1 where m1:
    "merge_users env (batch_size config) src (begin_transactions committed) = (r1, w1)"
    by (cases "merge_users env (batch_size config) src (begin_transactions committed)")
  show ?thesis
  proof (cases r1)
    case (Inl e)
    with m1 assms show ?thesis by (simp add: run_merge_def)
  next
    case users: (Inr s1)
    obtain r2 w2 where m2: "merge_images env (batch_size config) src w1 = (r2, w2)"
      by (cases "merge_images env (batch_size config) src w1")
    show ?thesis
    proof (cases r2)
      case (Inl e)
      with m1 users m2 assms show ?thesis by (simp add: run_merge_def)
    next
      case (Inr s2)
      with m1 users m2 assms have "r = \<lparr>users = s1, images = s2\<rparr>"
        and "after = (if dry_run config then rolled_back committed w2 else db w2)"
        by (auto simp: run_merge_def Let_def split: if_splits)
      with m1 users m2 Inr show ?thesis by simp
    qed
  qed
qed

lemma map_i_uuid_of_rows:
  assumes "map timeless_image es = map migrated_image rows"
  shows "map i_uuid es = map images_uuid rows"
proof -
  have "map i_uuid es = map i_uuid (map timeless_image es)"
    by (simp add: timeless_image_def)
  also have "\<dots> = map images_uuid rows"
    unfolding assms by (simp add: migrated_image_def image_of_def)
  finally show ?thesis .
qed

lemma max_id_dom: "dom a = dom b \<Longrightarrow> max_id a = max_id b"
  by (simp add: max_id_def)

lemma setval_again:
  assumes "setval v s = Inr s1" "setval v s1 = Inr s2"
  shows "s2 = s1"
  using assms by (auto simp: setval_def split: if_splits)

lemma example_first_run:
  "fst (run_merge example_env example_config example_source empty_target)
     = Inr \<lparr>users = \<lparr>processed = 2, inserted = 2, updated = 0, skipped = 0\<rparr>,
            images = \<lparr>processed = 4, inserted = 1, updated = 0, skipped = 3\<rparr>\<rparr>"
  by (simp add: fixtures run_defs Let_def derive_aspect_id_eval upsert_def)

lemma example_first_run_users:
  "map_option u_updated_at (tbl_user after_first_run 1) = Some (naive 1001)"
  "map_option u_created_at (tbl_user after_first_run 1) = Some (naive 1000)"
  by (simp_all add: after_first_run_def fixtures run_defs Let_def derive_aspect_id_eval upsert_def)

lemma example_second_run:
  "fst (run_merge later_env example_config example_source after_first_run)
     = Inr \<lparr>users = \<lparr>processed = 2, inserted = 0, updated = 2, skipped = 0\<rparr>,
            images = \<lparr>processed = 4, inserted = 0, updated = 1, skipped = 3\<rparr>\<rparr>"
  by (simp add: after_first_run_def fixtures run_defs Let_def derive_aspect_id_eval upsert_def)

lemma example_second_run_users:
  "map_option u_updated_at (tbl_user after_second_run 1) = Some (naive 2001)"
  "map_option u_created_at (tbl_user after_second_run 1) = Some (naive 1000)"
  by (simp_all add: after_second_run_def after_first_run_def fixtures run_defs Let_def
      derive_aspect_id_eval upsert_def tbl_user_do_update_def)

subsection \<open>Running the merge twice\<close>

text \<open>
  C5, as amended. When the full merge has run and committed, and runs and commits
  again on the same source, the target after the second run is the target after the
  first run but for \<open>updated_at\<close>, which every row written by the second run takes from
  the clock of the second run; \<open>created_at\<close>, the aspects and the sequence are the same.
  Row by row: a user whose id is not in the source, and an image that the source does not
  have or that the merge skips, is the same row after both runs; every user of the source
  and every image that is migrated is, after the second run, the row of the first run
  with \<open>updated_at\<close> set to a reading of the clock of the second run.
  The second run inserts no user and no image: every user is counted as updated, and
  every image as updated or as skipped.
\<close>

theorem run_merge_twice:
  assumes first: "run_merge env1 config src committed = (Inr r1, t1, tr1)"
    and second: "run_merge env2 config src t1 = (Inr r2, t2, tr2)"
    and real: "\<not> dry_run config"
  shows "without_updated_at t2 = without_updated_at t1
     \<and> inserted (users r2) = 0
     \<and> inserted (images r2) = 0
     \<and> updated (users r2) = int (length (users_table src))
     \<and> updated (images r2) + skipped (images r2) = int (length (images_table src))
     \<and> (\<forall>k. k \<notin> users_id ` set (users_table src) \<longrightarrow> tbl_user t2 k = tbl_user t1 k)
     \<and> (\<forall>k \<in> users_id ` set (users_table src). \<exists>x n. tbl_user t1 k = Some x
            \<and> tbl_user t2 k = Some (x\<lparr>u_updated_at := naive (clock env2 n)\<rparr>))
     \<and> (\<forall>k. k \<notin> images_uuid ` {row \<in> set (images_table src).
                   first_failing_condition (dom (tbl_user t1)) row = None}
            \<longrightarrow> tbl_image t2 k = tbl_image t1 k)
     \<and> (\<forall>k \<in> images_uuid ` {row \<in> set (images_table src).
                   first_failing_condition (dom (tbl_user t1)) row = None}.
            \<exists>x n. tbl_image t1 k = Some x
              \<and> tbl_image t2 k = Some (x\<lparr>i_updated_at := naive (clock env2 n)\<rparr>))
     \<and> tbl_image_aspect t2 = tbl_image_aspect t1
     \<and> tbl_user_id_seq t2 = tbl_user_id_seq t1"
proof -
  let ?bs = "batch_size config"
  let ?upU = "upsert u_id tbl_user_do_update"
  let ?upI = "upsert i_uuid tbl_image_do_update"
  from run_merge_Inr [OF first] real obtain a1 a2 where
    u1: "merge_users env1 ?bs src (begin_transactions committed) = (Inr (users r1), a1)"
    and i1: "merge_images env1 ?bs src a1 = (Inr (images r1), a2)"
    and t1: "t1 = db a2"
    by auto
  from run_merge_Inr [OF second] real obtain b1 b2 where
    u2: "merge_users env2 ?bs src (begin_transactions t1) = (Inr (users r2), b1)"
    and i2: "merge_images env2 ?bs src b1 = (Inr (images r2), b2)"
    and t2: "t2 = db b2"
    by auto
  have b0: "db (begin_transactions t1) = t1" "db (begin_transactions committed) = committed"
    by (simp_all add: begin_transactions_def)
  \<comment> \<open>the first run\<close>
  from merge_users_Inr [OF u1] obtain es1 where
    es1: "map timeless_user es1 = map user_of (users_table src)"
    and U1: "tbl_user (db a1) = fold ?upU es1 (tbl_user committed)"
    and sv1: "setval (coalesce (max_id (tbl_user (db a1))) 0) (tbl_user_id_seq committed)
         = Inr (tbl_user_id_seq (db a1))"
    unfolding b0 by blast
  from merge_images_Inr [OF i1] obtain fs1 where
    fs1: "map timeless_image fs1 = map migrated_image
             (filter (\<lambda>row. first_failing_condition (dom (tbl_user (db a1))) row = None)
                (images_table src))"
    and I1: "tbl_image (db a2) = fold ?upI fs1 (tbl_image (db a1))"
    and U1': "tbl_user (db a2) = tbl_user (db a1)"
    and S1': "tbl_user_id_seq (db a2) = tbl_user_id_seq (db a1)"
    and A1: "{''card-background'', ''sega-passname''} \<subseteq> dom (tbl_image_aspect (db a2))"
    by blast
  \<comment> \<open>the second run\<close>
  from merge_users_Inr [OF u2] obtain es2 where
    es2: "map timeless_user es2 = map user_of (users_table src)"
    and U2: "tbl_user (db b1) = fold ?upU es2 (tbl_user t1)"
    and I2': "tbl_image (db b1) = tbl_image t1"
    and A2': "tbl_image_aspect (db b1) = tbl_image_aspect t1"
    and sv2: "setval (coalesce (max_id (tbl_user (db b1))) 0) (tbl_user_id_seq t1)
         = Inr (tbl_user_id_seq (db b1))"
    and cu: "inserted (users r2) + updated (users r2) = int (length (users_table src))"
    and iu: "users_id ` set (users_table src) \<subseteq> dom (tbl_user t1) \<longrightarrow> inserted (users r2) = 0"
    and now_es2: "list_all (user_updated_now env2) es2"
    unfolding b0 by blast
  have ids1: "dom (tbl_user (db a1)) = dom (tbl_user committed) \<union> users_id ` set (users_table src)"
  proof -
    have "set (map u_id es1) = set (map users_id (users_table src))"
      using map_u_id_of_rows [OF es1] by simp
    then show ?thesis unfolding U1 dom_upsert_fold by simp
  qed
  have ids2: "dom (tbl_user (db b1)) = dom (tbl_user (db a1))"
  proof -
    have "set (map u_id es2) = set (map users_id (users_table src))"
      using map_u_id_of_rows [OF es2] by simp
    then have "dom (tbl_user (db b1)) = dom (tbl_user t1) \<union> users_id ` set (users_table src)"
      unfolding U2 dom_upsert_fold by simp
    with ids1 t1 U1' show ?thesis by auto
  qed
  from merge_images_Inr [OF i2] obtain fs2 where
    fs2: "map timeless_image fs2 = map migrated_image
             (filter (\<lambda>row. first_failing_condition (dom (tbl_user (db b1))) row = None)
                (images_table src))"
    and I2: "tbl_image (db b2) = fold ?upI fs2 (tbl_image (db b1))"
    and U2': "tbl_user (db b2) = tbl_user (db b1)"
    and S2': "tbl_user_id_seq (db b2) = tbl_user_id_seq (db b1)"
    and A2: "{''card-background'', ''sega-passname''} \<subseteq> dom (tbl_image_aspect (db b1))
          \<longrightarrow> tbl_image_aspect (db b2) = tbl_image_aspect (db b1)"
    and ci: "inserted (images r2) + updated (images r2) = int (length (filter
           (\<lambda>row. first_failing_condition (dom (tbl_user (db b1))) row = None) (images_table src)))"
    and sk: "skipped (images r2) = int (length (filter
           (\<lambda>row. first_failing_condition (dom (tbl_user (db b1))) row \<noteq> None) (images_table src)))"
    and ii: "images_uuid ` set (filter
           (\<lambda>row. first_failing_condition (dom (tbl_user (db b1))) row = None) (images_table src))
          \<subseteq> dom (tbl_image (db b1)) \<longrightarrow> inserted (images r2) = 0"
    and now_fs2: "list_all (image_updated_now env2) fs2"
    by blast
  \<comment> \<open>the tables\<close>
  have users: "map_option without_updated_at_user \<circ> tbl_user t2
      = map_option without_updated_at_user \<circ> tbl_user t1"
    unfolding t2 U2' U2 unfolding t1 U1' U1
    by (rule users_upserted_twice) (simp add: es1 es2)
  have same_fs: "map timeless_image fs2 = map timeless_image fs1"
    unfolding fs1 fs2 ids2 ..
  have images: "map_option without_updated_at_image \<circ> tbl_image t2
      = map_option without_updated_at_image \<circ> tbl_image t1"
    unfolding t2 I2 I2' unfolding t1 I1
    by (rule images_upserted_twice [OF same_fs])
  have aspects: "tbl_image_aspect t2 = tbl_image_aspect t1"
    using A2 A2' A1 t1 t2 by simp
  have seq: "tbl_user_id_seq t2 = tbl_user_id_seq t1"
  proof -
    have "max_id (tbl_user (db b1)) = max_id (tbl_user (db a1))"
      by (rule max_id_dom [OF ids2])
    with sv2 have "setval (coalesce (max_id (tbl_user (db a1))) 0) (tbl_user_id_seq (db a1))
         = Inr (tbl_user_id_seq (db b1))"
      by (simp add: t1 S1')
    from setval_again [OF sv1 this] show ?thesis
      by (simp add: t1 t2 S1' S2')
  qed
  have tables: "without_updated_at t2 = without_updated_at t1"
    by (rule target_db.equality) (simp_all add: without_updated_at_def users images aspects seq)
  \<comment> \<open>the counters\<close>
  have "users_id ` set (users_table src) \<subseteq> dom (tbl_user t1)"
    using ids1 t1 U1' by auto
  with iu have iu0: "inserted (users r2) = 0" by simp
  have "set (map i_uuid fs1) = set (map images_uuid
             (filter (\<lambda>row. first_failing_condition (dom (tbl_user (db a1))) row = None)
                (images_table src)))"
    using map_i_uuid_of_rows [OF fs1] by simp
  then have "images_uuid ` set (filter
           (\<lambda>row. first_failing_condition (dom (tbl_user (db b1))) row = None) (images_table src))
          \<subseteq> dom (tbl_image (db b1))"
    unfolding I2' t1 I1 dom_upsert_fold ids2 by auto
  with ii have ii0: "inserted (images r2) = 0" by simp
  have "updated (images r2) + skipped (images r2) = int (length (images_table src))"
    using ci sk ii0 sum_length_filter_compl
      [of "\<lambda>row. first_failing_condition (dom (tbl_user (db b1))) row = None" "images_table src"]
    by simp
  then have counters: "inserted (users r2) = 0 \<and> inserted (images r2) = 0
     \<and> updated (users r2) = int (length (users_table src))
     \<and> updated (images r2) + skipped (images r2) = int (length (images_table src))"
    using iu0 ii0 cu by simp
  \<comment> \<open>row by row\<close>
  have same_es: "map timeless_user es2 = map timeless_user es1"
    by (simp add: es1 es2)
  have keys_es2: "set (map u_id es2) = users_id ` set (users_table src)"
    using map_u_id_of_rows [OF es2] by simp
  have user_rows: "if filter (\<lambda>e. u_id e = k) es2 = [] then tbl_user t2 k = tbl_user t1 k
     else \<exists>x. tbl_user t1 k = Some x
        \<and> tbl_user t2 k = Some (x\<lparr>u_updated_at := u_updated_at (last (filter (\<lambda>e. u_id e = k) es2))\<rparr>)"
    for k
    unfolding t2 U2' U2 unfolding t1 U1' U1
    by (rule users_upserted_again [OF same_es])
  have users_kept: "\<forall>k. k \<notin> users_id ` set (users_table src) \<longrightarrow> tbl_user t2 k = tbl_user t1 k"
  proof (intro allI impI)
    fix k assume "k \<notin> users_id ` set (users_table src)"
    with keys_es2 have "filter (\<lambda>e. u_id e = k) es2 = []"
      by (simp add: filter_key_empty)
    with user_rows [of k] show "tbl_user t2 k = tbl_user t1 k" by simp
  qed
  have users_stamped: "\<forall>k \<in> users_id ` set (users_table src). \<exists>x n. tbl_user t1 k = Some x
            \<and> tbl_user t2 k = Some (x\<lparr>u_updated_at := naive (clock env2 n)\<rparr>)"
  proof
    fix k assume "k \<in> users_id ` set (users_table src)"
    with keys_es2 have ne: "filter (\<lambda>e. u_id e = k) es2 \<noteq> []"
      by (simp add: filter_key_empty)
    from rewritten_by_clock [OF now_es2 ne] obtain n where
      n: "u_updated_at (last (filter (\<lambda>e. u_id e = k) es2)) = naive (clock env2 n)"
      unfolding user_updated_now_def by blast
    from user_rows [of k] ne obtain x where "tbl_user t1 k = Some x"
      and "tbl_user t2 k
         = Some (x\<lparr>u_updated_at := u_updated_at (last (filter (\<lambda>e. u_id e = k) es2))\<rparr>)"
      by auto
    with n show "\<exists>x n. tbl_user t1 k = Some x
            \<and> tbl_user t2 k = Some (x\<lparr>u_updated_at := naive (clock env2 n)\<rparr>)"
      by auto
  qed
  have known: "dom (tbl_user (db b1)) = dom (tbl_user t1)"
    using ids2 t1 U1' by simp
  have keys_fs2: "set (map i_uuid fs2) = images_uuid ` {row \<in> set (images_table src).
                   first_failing_condition (dom (tbl_user t1)) row = None}"
    using map_i_uuid_of_rows [OF fs2] unfolding known by simp
  have image_rows: "if filter (\<lambda>e. i_uuid e = k) fs2 = [] then tbl_image t2 k = tbl_image t1 k
     else \<exists>x. tbl_image t1 k = Some x
        \<and> tbl_image t2 k
           = Some (x\<lparr>i_updated_at := i_updated_at (last (filter (\<lambda>e. i_uuid e = k) fs2))\<rparr>)"
    for k
    unfolding t2 I2 I2' unfolding t1 I1
    by (rule images_upserted_again [OF same_fs])
  have images_kept: "\<forall>k. k \<notin> images_uuid ` {row \<in> set (images_table src).
                   first_failing_condition (dom (tbl_user t1)) row = None}
            \<longrightarrow> tbl_image t2 k = tbl_image t1 k"
  proof (intro allI impI)
    fix k assume "k \<notin> images_uuid ` {row \<in> set (images_table src).
                   first_failing_condition (dom (tbl_user t1)) row = None}"
    with keys_fs2 have "filter (\<lambda>e. i_uuid e = k) fs2 = []"
      by (simp add: filter_key_empty)
    with image_rows [of k] show "tbl_image t2 k = tbl_image t1 k" by simp
  qed
  have images_stamped: "\<forall>k \<in> images_uuid ` {row \<in> set (images_table src).
                   first_failing_condition (dom (tbl_user t1)) row = None}.
            \<exists>x n. tbl_image t1 k = Some x
              \<and> tbl_image t2 k = Some (x\<lparr>i_updated_at := naive (clock env2 n)\<rparr>)"
  proof
    fix k assume "k \<in> images_uuid ` {row \<in> set (images_table src).
                   first_failing_condition (dom (tbl_user t1)) row = None}"
    with keys_fs2 have ne: "filter (\<lambda>e. i_uuid e = k) fs2 \<noteq> []"
      by (simp add: filter_key_empty)
    from rewritten_by_clock [OF now_fs2 ne] obtain n where
      n: "i_updated_at (last (filter (\<lambda>e. i_uuid e = k) fs2)) = naive (clock env2 n)"
      unfolding image_updated_now_def by blast
    from image_rows [of k] ne obtain x where "tbl_image t1 k = Some x"
      and "tbl_image t2 k
         = Some (x\<lparr>i_updated_at := i_updated_at (last (filter (\<lambda>e. i_uuid e = k) fs2))\<rparr>)"
      by auto
    with n show "\<exists>x n. tbl_image t1 k = Some x
              \<and> tbl_image t2 k = Some (x\<lparr>i_updated_at := naive (clock env2 n)\<rparr>)"
      by auto
  qed
  from tables counters users_kept users_stamped images_kept images_stamped aspects seq
  show ?thesis by (intro conjI) (simp_all only:)
qed

theorem run_merge_twice_witness:
  "without_updated_at after_second_run = without_updated_at after_first_run
   \<and> (\<exists>users_summary images_summary.
        fst (run_merge later_env example_config example_source after_first_run)
          = Inr \<lparr>users = users_summary, images = images_summary\<rparr>
        \<and> inserted users_summary = 0 \<and> inserted images_summary = 0
        \<and> updated users_summary = 2 \<and> updated images_summary + skipped images_summary = 4)
   \<and> (\<exists>x n. tbl_user after_first_run 1 = Some x
        \<and> tbl_user after_second_run 1 = Some (x\<lparr>u_updated_at := naive (clock later_env n)\<rparr>))
   \<and> (\<exists>x n. tbl_image after_first_run ''u-1'' = Some x
        \<and> tbl_image after_second_run ''u-1'' = Some (x\<lparr>i_updated_at := naive (clock later_env n)\<rparr>))
   \<and> tbl_image after_second_run ''u-2'' = tbl_image after_first_run ''u-2''
   \<and> tbl_image_aspect after_second_run = tbl_image_aspect after_first_run
   \<and> tbl_user_id_seq after_second_run = tbl_user_id_seq after_first_run"
proof -
  let ?r1 = "\<lparr>users = \<lparr>processed = 2, inserted = 2, updated = 0, skipped = 0\<rparr>,
            images = \<lparr>processed = 4, inserted = 1, updated = 0, skipped = 3\<rparr>\<rparr>"
  let ?r2 = "\<lparr>users = \<lparr>processed = 2, inserted = 0, updated = 2, skipped = 0\<rparr>,
            images = \<lparr>processed = 4, inserted = 0, updated = 1, skipped = 3\<rparr>\<rparr>"
  have first: "run_merge example_env example_config example_source empty_target
      = (Inr ?r1, after_first_run,
         snd (snd (run_merge example_env example_config example_source empty_target)))"
    using example_first_run by (simp add: after_first_run_def prod_eq_iff)
  have second: "run_merge later_env example_config example_source after_first_run
      = (Inr ?r2, after_second_run,
         snd (snd (run_merge later_env example_config example_source after_first_run)))"
    using example_second_run by (simp add: after_second_run_def prod_eq_iff)
  have real: "\<not> dry_run example_config" by (simp add: example_config_def)
  note twice = run_merge_twice [OF first second real]
  have alice: "1 \<in> users_id ` set (users_table example_source)"
    by (simp add: example_source_def alice_def)
  have known: "1 \<in> dom (tbl_user after_first_run)"
    using example_first_run_users(1) by (cases "tbl_user after_first_run 1") auto
  have "first_failing_condition (dom (tbl_user after_first_run)) image_of_alice = None"
    using known by (simp add: first_failing_condition_def image_of_alice_def derive_aspect_id_eval)
  then have "image_of_alice \<in> {row \<in> set (images_table example_source).
       first_failing_condition (dom (tbl_user after_first_run)) row = None}"
    by (simp add: example_source_def)
  then have migrated: "''u-1'' \<in> images_uuid ` {row \<in> set (images_table example_source).
       first_failing_condition (dom (tbl_user after_first_run)) row = None}"
    by (rule image_eqI [rotated]) (simp add: image_of_alice_def)
  have "first_failing_condition (dom (tbl_user after_first_run)) image_of_nobody \<noteq> None"
    by (simp add: first_failing_condition_def image_of_nobody_def)
  then have skipped: "''u-2'' \<notin> images_uuid ` {row \<in> set (images_table example_source).
       first_failing_condition (dom (tbl_user after_first_run)) row = None}"
    by (auto simp: example_source_def image_of_alice_def image_of_nobody_def
        image_of_stranger_def image_of_unknown_kind_def)
  from twice have tables: "without_updated_at after_second_run = without_updated_at after_first_run"
    by simp
  from twice alice have user: "\<exists>x n. tbl_user after_first_run 1 = Some x
        \<and> tbl_user after_second_run 1 = Some (x\<lparr>u_updated_at := naive (clock later_env n)\<rparr>)"
    by blast
  from twice migrated have image: "\<exists>x n. tbl_image after_first_run ''u-1'' = Some x
        \<and> tbl_image after_second_run ''u-1''
            = Some (x\<lparr>i_updated_at := naive (clock later_env n)\<rparr>)"
    by blast
  from twice skipped
  have kept: "tbl_image after_second_run ''u-2'' = tbl_image after_first_run ''u-2''"
    by blast
  from twice have rest: "tbl_image_aspect after_second_run = tbl_image_aspect after_first_run"
    "tbl_user_id_seq after_second_run = tbl_user_id_seq after_first_run"
    by simp_all
  from tables user image kept rest example_second_run show ?thesis by simp
qed

text \<open>
  The claim as written fails: the second run stores its own time in \<open>updated_at\<close>, so
  with a clock that has moved on the two targets differ.
\<close>

theorem run_merge_twice_counterexample:
  "fst (run_merge example_env example_config example_source empty_target)
     = Inr \<lparr>users = \<lparr>processed = 2, inserted = 2, updated = 0, skipped = 0\<rparr>,
            images = \<lparr>processed = 4, inserted = 1, updated = 0, skipped = 3\<rparr>\<rparr>
   \<and> fst (run_merge later_env example_config example_source after_first_run)
     = Inr \<lparr>users = \<lparr>processed = 2, inserted = 0, updated = 2, skipped = 0\<rparr>,
            images = \<lparr>processed = 4, inserted = 0, updated = 1, skipped = 3\<rparr>\<rparr>
   \<and> map_option u_updated_at (tbl_user after_first_run 1) = Some (naive 1001)
   \<and> map_option u_updated_at (tbl_user after_second_run 1) = Some (naive 2001)
   \<and> after_second_run \<noteq> after_first_run"
proof -
  have "naive 2001 \<noteq> naive 1001" by (simp add: naive_def)
  with example_first_run_users(1) example_second_run_users(1)
  have "after_second_run \<noteq> after_first_run" by auto
  with example_first_run example_second_run example_first_run_users(1)
    example_second_run_users(1)
  show ?thesis by simp
qed

subsection \<open>Dry runs\<close>

text \<open>
  A dry run returns what the real run returns in the same environment, and it ends
  with both transactions rolled back and the tables of the target as they were.
\<close>

lemma run_merge_dry_run_same_result:
  "fst (run_merge env (config\<lparr>dry_run := True\<rparr>) src committed)
     = fst (run_merge env (config\<lparr>dry_run := False\<rparr>) src committed)"
  by (simp add: run_merge_def Let_def split: prod.split sum.split)

lemma run_merge_dry_run_restores_tables:
  assumes "dry_run config" and "run_merge env config src committed = (r, after, tr)"
  shows "tbl_user after = tbl_user committed \<and> tbl_image after = tbl_image committed
     \<and> tbl_image_aspect after = tbl_image_aspect committed
     \<and> (\<exists>tr0. tr = tr0 @ [Rollback Target, Rollback Source])"
  using assms
  by (auto simp: run_merge_def Let_def rolled_back_def rollback_both_def
      split: prod.splits sum.splits)

text \<open>
  C4. On the example source and the empty target the dry run returns the counters of
  the real run and leaves the three tables as they were, but it does not leave the
  target as it was: \<open>_sync_sequence\<close> has run inside the transaction, and the
  sequence keeps the value that \<open>setval\<close> stored when the transaction is rolled back.
  Before the dry run the next identifier that the sequence hands out is 1, after it 3.
\<close>

theorem dry_run_moves_sequence:
  "fst (run_merge example_env dry_run_config example_source empty_target)
     = fst (run_merge example_env example_config example_source empty_target)
   \<and> tbl_user after_dry_run = tbl_user empty_target
   \<and> tbl_image after_dry_run = tbl_image empty_target
   \<and> tbl_image_aspect after_dry_run = tbl_image_aspect empty_target
   \<and> tbl_user_id_seq empty_target = example_seq
   \<and> tbl_user_id_seq after_dry_run = example_seq\<lparr>last_value := 2, is_called := True\<rparr>
   \<and> drawn 0 (tbl_user_id_seq empty_target) = Inr 1
   \<and> drawn 0 (tbl_user_id_seq after_dry_run) = Inr 3
   \<and> after_dry_run \<noteq> empty_target"
proof -
  have same: "fst (run_merge example_env dry_run_config example_source empty_target)
     = fst (run_merge example_env example_config example_source empty_target)"
    using run_merge_dry_run_same_result [of example_env example_config example_source empty_target]
    by (simp add: dry_run_config_def example_config_def)
  have dry: "dry_run dry_run_config" by (simp add: dry_run_config_def)
  have run: "run_merge example_env dry_run_config example_source empty_target
      = (fst (run_merge example_env dry_run_config example_source empty_target), after_dry_run,
         snd (snd (run_merge example_env dry_run_config example_source empty_target)))"
    by (simp add: after_dry_run_def)
  note tables = run_merge_dry_run_restores_tables [OF dry run]
  have seq0: "tbl_user_id_seq empty_target = example_seq" by (simp add: empty_target_def)
  have seq1: "tbl_user_id_seq after_dry_run = example_seq\<lparr>last_value := 2, is_called := True\<rparr>"
    by (simp add: after_dry_run_def dry_run_config_def fixtures run_defs Let_def
        derive_aspect_id_eval upsert_def)
  have d0: "drawn 0 (tbl_user_id_seq empty_target) = Inr 1"
    by (simp add: seq0 example_seq_def nextval_def)
  have d1: "drawn 0 (tbl_user_id_seq after_dry_run) = Inr 3"
    by (simp add: seq1 example_seq_def nextval_def)
  from d0 d1 have "after_dry_run \<noteq> empty_target" by auto
  with same tables seq0 seq1 d0 d1 show ?thesis by simp
qed

end
